theory Spec2Isabelle
  imports Main "HOL-Library.Word"
begin

unbundle bit_operations_syntax

section \<open>The image and its typed views\<close>

text \<open>
  \<^verbatim>\<open>vsfsck.c\<close> reads the whole image into one buffer \<^verbatim>\<open>fs_image\<close> and works on it
  through overlays: the superblock, the two bitmaps, the inode table and the
  \<^verbatim>\<open>uint32_t\<close> arrays of the indirect blocks are all pointers into that buffer.
  The buffer is modelled as a store from byte offsets to bytes, so that a write
  through one view is seen through every other view of the same bytes. The
  checker accesses offsets below \<open>64 * 4096\<close> only (\<^verbatim>\<open>get_block\<close> refuses any
  other block).  Multi-byte fields are little-endian.
\<close>

type_synonym byte = "8 word"
type_synonym u32 = "32 word"
type_synonym image = "nat \<Rightarrow> byte"

abbreviation (input) BLOCK_SIZE :: nat where "BLOCK_SIZE \<equiv> 4096"
abbreviation (input) TOTAL_BLOCKS :: "'a::numeral" where "TOTAL_BLOCKS \<equiv> 64"
abbreviation (input) MAGIC_BYTES :: nat where "MAGIC_BYTES \<equiv> 0xD34D"
abbreviation (input) INODE_SIZE :: nat where "INODE_SIZE \<equiv> 256"
abbreviation (input) INODE_COUNT :: nat where "INODE_COUNT \<equiv> 80"
abbreviation (input) SUPERBLOCK_NUM :: nat where "SUPERBLOCK_NUM \<equiv> 0"
abbreviation (input) INODE_BITMAP_BLOCK_NUM :: nat where "INODE_BITMAP_BLOCK_NUM \<equiv> 1"
abbreviation (input) DATA_BITMAP_BLOCK_NUM :: nat where "DATA_BITMAP_BLOCK_NUM \<equiv> 2"
abbreviation (input) INODE_TABLE_START_BLOCK_NUM :: nat where "INODE_TABLE_START_BLOCK_NUM \<equiv> 3"
abbreviation (input) DATA_BLOCK_START_NUM :: "'a::numeral" where "DATA_BLOCK_START_NUM \<equiv> 8"
abbreviation (input) DATA_BLOCKS_COUNT :: nat where "DATA_BLOCKS_COUNT \<equiv> 56"

definition read16 :: "image \<Rightarrow> nat \<Rightarrow> 16 word" where
  "read16 m a = ucast (m a) OR push_bit 8 (ucast (m (a + 1)))"

definition write16 :: "image \<Rightarrow> nat \<Rightarrow> 16 word \<Rightarrow> image" where
  "write16 m a v = m(a := ucast v, a + 1 := ucast (drop_bit 8 v))"

definition read32 :: "image \<Rightarrow> nat \<Rightarrow> u32" where
  "read32 m a = ucast (m a) OR push_bit 8 (ucast (m (a + 1)))
     OR push_bit 16 (ucast (m (a + 2))) OR push_bit 24 (ucast (m (a + 3)))"

definition write32 :: "image \<Rightarrow> nat \<Rightarrow> u32 \<Rightarrow> image" where
  "write32 m a v = m(a := ucast v, a + 1 := ucast (drop_bit 8 v),
     a + 2 := ucast (drop_bit 16 v), a + 3 := ucast (drop_bit 24 v))"

text \<open>
  \<^verbatim>\<open>get_block(int block_num)\<close>: \<^verbatim>\<open>NULL\<close> outside \<open>[0, 64)\<close>, else the address of
  the block, here its byte offset.  Callers pass \<^verbatim>\<open>uint32_t\<close> block numbers; the
  conversion to \<^verbatim>\<open>int\<close> is the two's complement reading \<open>sint\<close>.
\<close>

definition get_block :: "int \<Rightarrow> nat option" where
  "get_block block_num =
     (if block_num < 0 \<or> block_num \<ge> TOTAL_BLOCKS then None
      else Some (nat block_num * BLOCK_SIZE))"

text \<open>The bitmap helpers; \<open>bitmap\<close> is the offset of the bitmap in the image.\<close>

definition is_bit_set :: "image \<Rightarrow> nat \<Rightarrow> nat \<Rightarrow> bool" where
  "is_bit_set m bitmap bit_num =
     (let byte_num = bit_num div 8; bit_off = bit_num mod 8
      in (m (bitmap + byte_num) AND push_bit bit_off 1) \<noteq> 0)"

definition set_bit_in :: "image \<Rightarrow> nat \<Rightarrow> nat \<Rightarrow> image" where
  "set_bit_in m bitmap bit_num =
     (let byte_num = bit_num div 8; bit_off = bit_num mod 8
      in m(bitmap + byte_num := m (bitmap + byte_num) OR push_bit bit_off 1))"

definition clear_bit :: "image \<Rightarrow> nat \<Rightarrow> nat \<Rightarrow> image" where
  "clear_bit m bitmap bit_num =
     (let byte_num = bit_num div 8; bit_off = bit_num mod 8
      in m(bitmap + byte_num := m (bitmap + byte_num) AND NOT (push_bit bit_off 1)))"

text \<open>
  The four global overlays set up by \<^verbatim>\<open>main\<close> with \<^verbatim>\<open>get_block\<close>, as offsets:
  blocks 0, 1, 2 and 3 times \<^verbatim>\<open>BLOCK_SIZE\<close>.
\<close>

abbreviation (input) superblock :: nat where "superblock \<equiv> 0"
abbreviation (input) inode_bitmap :: nat where "inode_bitmap \<equiv> 4096"
abbreviation (input) data_bitmap :: nat where "data_bitmap \<equiv> 8192"
abbreviation (input) inode_table :: nat where "inode_table \<equiv> 12288"

text \<open>
  \<^verbatim>\<open>inode_t\<close>: fourteen \<^verbatim>\<open>uint32_t\<close> fields and 156 reserved bytes, so
  \<^verbatim>\<open>sizeof(inode_t)\<close> is \<open>14 * 4 + 156 = 212\<close> (the struct is not padded to the
  \<^verbatim>\<open>INODE_SIZE\<close> of 256 that the superblock records), and \<^verbatim>\<open>&inode_table[i]\<close> is
  \<open>inode_table + i * 212\<close>.  The fields the checker reads are \<^verbatim>\<open>dtime\<close> (offset 28), \<^verbatim>\<open>links_count\<close> (32) and the four pointers
  \<^verbatim>\<open>direct_block\<close>, \<^verbatim>\<open>single_indirect\<close>, \<^verbatim>\<open>double_indirect\<close>,
  \<^verbatim>\<open>triple_indirect\<close> (40, 44, 48, 52).
\<close>

text \<open>The four block pointers of an inode, in the order of the struct.\<close>

datatype slot = Direct | Single | Double | Triple

abbreviation (input) sizeof_inode_t :: nat where "sizeof_inode_t \<equiv> 212"

definition inode_at :: "nat \<Rightarrow> nat" where
  "inode_at i = inode_table + i * sizeof_inode_t"

definition dtime :: "image \<Rightarrow> nat \<Rightarrow> u32" where
  "dtime m i = read32 m (inode_at i + 28)"

definition links_count :: "image \<Rightarrow> nat \<Rightarrow> u32" where
  "links_count m i = read32 m (inode_at i + 32)"

fun slot_offset :: "slot \<Rightarrow> nat" where
  "slot_offset Direct = 40"
| "slot_offset Single = 44"
| "slot_offset Double = 48"
| "slot_offset Triple = 52"

definition pointer :: "image \<Rightarrow> nat \<Rightarrow> slot \<Rightarrow> u32" where
  "pointer m i sl = read32 m (inode_at i + slot_offset sl)"

abbreviation direct_block :: "image \<Rightarrow> nat \<Rightarrow> u32" where
  "direct_block m i \<equiv> pointer m i Direct"

abbreviation single_indirect :: "image \<Rightarrow> nat \<Rightarrow> u32" where
  "single_indirect m i \<equiv> pointer m i Single"

abbreviation double_indirect :: "image \<Rightarrow> nat \<Rightarrow> u32" where
  "double_indirect m i \<equiv> pointer m i Double"

abbreviation triple_indirect :: "image \<Rightarrow> nat \<Rightarrow> u32" where
  "triple_indirect m i \<equiv> pointer m i Triple"

definition is_inode_valid :: "image \<Rightarrow> nat \<Rightarrow> bool" where
  "is_inode_valid m i \<longleftrightarrow> links_count m i > 0 \<and> dtime m i = 0"


section \<open>Diagnostics and checker state\<close>

text \<open>
  Every \<^verbatim>\<open>printf\<close>, \<^verbatim>\<open>fprintf\<close> and \<^verbatim>\<open>perror\<close> of the source is one \<open>line\<close>,
  carrying the numbers the format string prints.  The lines that start with
  \<^verbatim>\<open>Error:\<close> inside a pass are the findings.
\<close>

datatype pass = Superblock | Data_bitmap | Inode_bitmap | Duplicate_blocks | Bad_blocks

datatype field = Magic | Block_size | Total_blocks | Inode_bitmap_block
  | Data_bitmap_block | Inode_table_start | First_data_block | Inode_size | Inode_count

datatype finding =
    Sb_error field nat
  | Db_unmarked nat
  | Db_unreferenced nat
  | Ib_unmarked nat
  | Ib_marked nat
  | Dup_error slot u32 int nat
  | Bad_top slot nat u32
  | Bad_entry slot nat nat u32

datatype repair =
    Sb_fixing field
  | Db_fix_mark nat
  | Db_fix_clear nat
  | Ib_fix_mark nat
  | Ib_fix_clear nat
  | Dup_fixing nat
  | Bad_fix_top slot nat
  | Bad_fix_entry slot nat nat nat

datatype report =
    Title
  | Title_rule
  | Image_name string
  | Mode bool
  | Summary_header
  | Summary pass bool
  | Overall bool
  | Recheck_header
  | Post_summary_header
  | Post_summary pass bool
  | Post_overall bool
  | Warning
  | Advice

datatype failure =
    Usage
  | Perror_open
  | Size_mismatch int
  | Perror_malloc
  | Perror_read
  | Perror_calloc
  | Perror_write

datatype line =
    Banner pass
  | Error finding
  | Fixing repair
  | Sb_valid field nat
  | Db_checking
  | Db_validating
  | Dup_note
  | Alloc_failed
  | Report report
  | Stderr failure

definition is_finding :: "line \<Rightarrow> bool" where
  "is_finding l = (case l of Error e \<Rightarrow> True | _ \<Rightarrow> False)"

definition is_banner :: "line \<Rightarrow> bool" where
  "is_banner l = (case l of Banner p \<Rightarrow> True | _ \<Rightarrow> False)"

text \<open>
  The state the passes work on: the global buffer and the global
  \<^verbatim>\<open>block_ref_count\<close> table, the locals of the pass that is running
  (\<^verbatim>\<open>isValid\<close>, \<^verbatim>\<open>block_used\<close> of the data-bitmap pass, \<^verbatim>\<open>inode_refs\<close> of the
  duplicate pass; each pass initialises its own on entry), and the lines
  printed so far.
\<close>

record state =
  fs_image :: image
  block_ref_count :: "nat \<Rightarrow> bool"
  inode_refs :: "nat \<Rightarrow> int"
  block_used :: "nat \<Rightarrow> bool"
  isValid :: bool
  printed :: "line list"

definition print :: "line \<Rightarrow> state \<Rightarrow> state" where
  "print l s = s\<lparr>printed := printed s @ [l]\<rparr>"

definition poke32 :: "nat \<Rightarrow> u32 \<Rightarrow> state \<Rightarrow> state" where
  "poke32 a v s = s\<lparr>fs_image := write32 (fs_image s) a v\<rparr>"

definition invalid :: "state \<Rightarrow> state" where
  "invalid s = s\<lparr>isValid := False\<rparr>"

section \<open>Pass 1: superblock\<close>

text \<open>
  \<^verbatim>\<open>superblock_t\<close> is declared without a packing attribute: \<^verbatim>\<open>magic\<close> is a
  \<^verbatim>\<open>uint16_t\<close> at offset 0 and the eight \<^verbatim>\<open>uint32_t\<close> fields follow at their
  natural alignment, offsets 4 to 32.  The validator repeats one check per
  field; \<open>sb_check\<close> is that check.
\<close>

fun sb_get :: "image \<Rightarrow> field \<Rightarrow> nat" where
  "sb_get m Magic = unat (read16 m superblock)"
| "sb_get m Block_size = unat (read32 m (superblock + 4))"
| "sb_get m Total_blocks = unat (read32 m (superblock + 8))"
| "sb_get m Inode_bitmap_block = unat (read32 m (superblock + 12))"
| "sb_get m Data_bitmap_block = unat (read32 m (superblock + 16))"
| "sb_get m Inode_table_start = unat (read32 m (superblock + 20))"
| "sb_get m First_data_block = unat (read32 m (superblock + 24))"
| "sb_get m Inode_size = unat (read32 m (superblock + 28))"
| "sb_get m Inode_count = unat (read32 m (superblock + 32))"

fun sb_expected :: "field \<Rightarrow> nat" where
  "sb_expected Magic = MAGIC_BYTES"
| "sb_expected Block_size = BLOCK_SIZE"
| "sb_expected Total_blocks = TOTAL_BLOCKS"
| "sb_expected Inode_bitmap_block = INODE_BITMAP_BLOCK_NUM"
| "sb_expected Data_bitmap_block = DATA_BITMAP_BLOCK_NUM"
| "sb_expected Inode_table_start = INODE_TABLE_START_BLOCK_NUM"
| "sb_expected First_data_block = DATA_BLOCK_START_NUM"
| "sb_expected Inode_size = INODE_SIZE"
| "sb_expected Inode_count = INODE_COUNT"

fun sb_put :: "image \<Rightarrow> field \<Rightarrow> image" where
  "sb_put m Magic = write16 m superblock (of_nat MAGIC_BYTES)"
| "sb_put m Block_size = write32 m (superblock + 4) (of_nat BLOCK_SIZE)"
| "sb_put m Total_blocks = write32 m (superblock + 8) TOTAL_BLOCKS"
| "sb_put m Inode_bitmap_block = write32 m (superblock + 12) (of_nat INODE_BITMAP_BLOCK_NUM)"
| "sb_put m Data_bitmap_block = write32 m (superblock + 16) (of_nat DATA_BITMAP_BLOCK_NUM)"
| "sb_put m Inode_table_start = write32 m (superblock + 20) (of_nat INODE_TABLE_START_BLOCK_NUM)"
| "sb_put m First_data_block = write32 m (superblock + 24) DATA_BLOCK_START_NUM"
| "sb_put m Inode_size = write32 m (superblock + 28) (of_nat INODE_SIZE)"
| "sb_put m Inode_count = write32 m (superblock + 32) (of_nat INODE_COUNT)"

definition sb_check :: "bool \<Rightarrow> field \<Rightarrow> state \<Rightarrow> state" where
  "sb_check fix f s =
     (if sb_get (fs_image s) f \<noteq> sb_expected f then
        let s1 = print (Error (Sb_error f (sb_get (fs_image s) f))) s;
            s2 = (if fix then (print (Fixing (Sb_fixing f)) s1)\<lparr>fs_image := sb_put (fs_image s1) f\<rparr>
                  else s1)
        in invalid s2
      else print (Sb_valid f (sb_get (fs_image s) f)) s)"

definition sb_fields :: "field list" where
  "sb_fields = [Magic, Block_size, Total_blocks, Inode_bitmap_block, Data_bitmap_block,
     Inode_table_start, First_data_block, Inode_size, Inode_count]"

definition validate_superblock :: "bool \<Rightarrow> state \<Rightarrow> bool \<times> state" where
  "validate_superblock fix s =
     (let s0 = print (Banner Superblock) (s\<lparr>isValid := True\<rparr>);
          s1 = fold (sb_check fix) sb_fields s0
      in (isValid s1, s1))"

section \<open>Pass 2: data bitmap\<close>

text \<open>
  \<^verbatim>\<open>int block_idx = ptr - DATA_BLOCK_START_NUM\<close> is computed in \<^verbatim>\<open>uint32_t\<close> and
  read as an \<^verbatim>\<open>int\<close>, so a pointer below 8 gives a negative index.  The marking
  is the same four lines for each of the four pointer fields of the inode.
\<close>

definition mark_used :: "u32 \<Rightarrow> state \<Rightarrow> state" where
  "mark_used p s =
     (if p \<noteq> 0 then
        let block_idx = sint (p - DATA_BLOCK_START_NUM)
        in if block_idx \<ge> 0 \<and> block_idx < int DATA_BLOCKS_COUNT
           then s\<lparr>block_used := (block_used s)(nat block_idx := True)\<rparr>
           else s
      else s)"

definition mark_inode :: "nat \<Rightarrow> state \<Rightarrow> state" where
  "mark_inode i s =
     (if \<not> is_inode_valid (fs_image s) i then s
      else mark_used (triple_indirect (fs_image s) i)
            (mark_used (double_indirect (fs_image s) i)
              (mark_used (single_indirect (fs_image s) i)
                (mark_used (direct_block (fs_image s) i) s))))"

definition db_check :: "bool \<Rightarrow> nat \<Rightarrow> state \<Rightarrow> state" where
  "db_check fix i s =
     (let bitmap_used = is_bit_set (fs_image s) data_bitmap i;
          s1 = (if block_used s i \<and> \<not> bitmap_used then
                  let t = print (Error (Db_unmarked (i + DATA_BLOCK_START_NUM))) s;
                      t' = (if fix then
                              (print (Fixing (Db_fix_mark (i + DATA_BLOCK_START_NUM))) t)
                                \<lparr>fs_image := set_bit_in (fs_image t) data_bitmap i\<rparr>
                            else t)
                  in invalid t'
                else s)
      in if \<not> block_used s1 i \<and> bitmap_used then
           let t = print (Error (Db_unreferenced (i + DATA_BLOCK_START_NUM))) s1;
               t' = (if fix then
                       (print (Fixing (Db_fix_clear (i + DATA_BLOCK_START_NUM))) t)
                         \<lparr>fs_image := clear_bit (fs_image t) data_bitmap i\<rparr>
                     else t)
           in invalid t'
         else s1)"

text \<open>
  \<open>alloc_ok\<close> is whether \<^verbatim>\<open>calloc\<close> returned a buffer; on failure the pass
  prints one line and returns \<^verbatim>\<open>false\<close>.
\<close>

definition validate_data_bitmap :: "bool \<Rightarrow> bool \<Rightarrow> state \<Rightarrow> bool \<times> state" where
  "validate_data_bitmap fix alloc_ok s =
     (let s0 = print (Banner Data_bitmap) (s\<lparr>isValid := True\<rparr>)
      in if \<not> alloc_ok then (False, print Alloc_failed s0)
         else
           let s1 = print Db_checking (s0\<lparr>block_used := (\<lambda>_. False)\<rparr>);
               s2 = fold mark_inode [0..<INODE_COUNT] s1;
               s3 = print Db_validating s2;
               s4 = fold (db_check fix) [0..<DATA_BLOCKS_COUNT] s3
           in (isValid s4, s4))"

section \<open>Pass 3: inode bitmap\<close>

definition ib_check :: "bool \<Rightarrow> nat \<Rightarrow> state \<Rightarrow> state" where
  "ib_check fix i s =
     (let is_valid = is_inode_valid (fs_image s) i;
          bitmap_used = is_bit_set (fs_image s) inode_bitmap i;
          s1 = (if is_valid \<and> \<not> bitmap_used then
                  let t = print (Error (Ib_unmarked i)) s;
                      t' = (if fix then
                              (print (Fixing (Ib_fix_mark i)) t)
                                \<lparr>fs_image := set_bit_in (fs_image t) inode_bitmap i\<rparr>
                            else t)
                  in invalid t'
                else s)
      in if \<not> is_valid \<and> bitmap_used then
           let t = print (Error (Ib_marked i)) s1;
               t' = (if fix then
                       (print (Fixing (Ib_fix_clear i)) t)
                         \<lparr>fs_image := clear_bit (fs_image t) inode_bitmap i\<rparr>
                     else t)
           in invalid t'
         else s1)"

definition validate_inode_bitmap :: "bool \<Rightarrow> state \<Rightarrow> bool \<times> state" where
  "validate_inode_bitmap fix s =
     (let s0 = print (Banner Inode_bitmap) (s\<lparr>isValid := True\<rparr>);
          s1 = fold (ib_check fix) [0..<INODE_COUNT] s0
      in (isValid s1, s1))"

section \<open>Pass 4: duplicate blocks\<close>

abbreviation (input) entries_per_block :: nat where "entries_per_block \<equiv> 1024"

definition check_data_block_for_duplicates :: "u32 \<Rightarrow> nat \<Rightarrow> bool \<Rightarrow> state \<Rightarrow> bool \<times> state" where
  "check_data_block_for_duplicates blk ino do_fix s =
     (if blk \<ge> DATA_BLOCK_START_NUM \<and> blk < TOTAL_BLOCKS then
        if block_ref_count s (unat blk) then
          let s1 = print (Error (Dup_error Direct blk (inode_refs s (unat blk)) ino)) s
          in (False, if do_fix then print Dup_note s1 else s1)
        else (True, s\<lparr>block_ref_count := (block_ref_count s)(unat blk := True),
                       inode_refs := (inode_refs s)(unat blk := int ino)\<rparr>)
      else (True, s))"

text \<open>
  The body of the innermost loops: one entry \<^verbatim>\<open>blk[j]\<close> of a container whose
  entries are data blocks.
\<close>

definition dup_leaf :: "bool \<Rightarrow> nat \<Rightarrow> nat \<Rightarrow> nat \<Rightarrow> state \<Rightarrow> state" where
  "dup_leaf fix i base j s =
     (let v = read32 (fs_image s) (base + 4 * j)
      in if v \<noteq> 0 then
           case check_data_block_for_duplicates v i fix s of
             (ok, s1) \<Rightarrow>
               if \<not> ok then
                 let s2 = invalid s1
                 in if fix then poke32 (base + 4 * j) 0 s2 else s2
               else s1
         else s)"

text \<open>
  The body of the outer loops: one entry of a container whose entries are
  containers themselves.  The entry is checked like a leaf; then, whatever the
  check said, \<^verbatim>\<open>get_block\<close> is called on the value that was read and, when it
  is not \<^verbatim>\<open>NULL\<close>, the loop over that block's entries runs (\<open>descend\<close>).
\<close>

definition dup_node :: "(nat \<Rightarrow> state \<Rightarrow> state) \<Rightarrow> bool \<Rightarrow> nat \<Rightarrow> nat \<Rightarrow> nat \<Rightarrow> state \<Rightarrow> state" where
  "dup_node descend fix i base j s =
     (let v = read32 (fs_image s) (base + 4 * j)
      in if v \<noteq> 0 then
           case check_data_block_for_duplicates v i fix s of
             (ok, s1) \<Rightarrow>
               let s3 = (if \<not> ok then
                           let s2 = invalid s1
                           in if fix then poke32 (base + 4 * j) 0 s2 else s2
                         else s1)
               in (case get_block (sint v) of
                     None \<Rightarrow> s3
                   | Some blk \<Rightarrow> descend blk s3)
         else s)"

text \<open>
  The source writes the loop nests out for each pointer: one loop under
  \<^verbatim>\<open>single_indirect\<close>, two under \<^verbatim>\<open>double_indirect\<close>, three under
  \<^verbatim>\<open>triple_indirect\<close>.  \<open>dup_entries d\<close> is the nest with \<open>d\<close> loops around
  the innermost one.
\<close>

primrec dup_entries :: "nat \<Rightarrow> bool \<Rightarrow> nat \<Rightarrow> nat \<Rightarrow> state \<Rightarrow> state" where
  "dup_entries 0 fix i base s = fold (dup_leaf fix i base) [0..<entries_per_block] s"
| "dup_entries (Suc d) fix i base s =
     fold (dup_node (dup_entries d fix i) fix i base) [0..<entries_per_block] s"

fun slot_depth :: "slot \<Rightarrow> nat" where
  "slot_depth Direct = 0"
| "slot_depth Single = 0"
| "slot_depth Double = 1"
| "slot_depth Triple = 2"

text \<open>
  One of the four pointers of inode \<open>i\<close>.  In the branch that walks the
  container the pointer is in \<open>[8, 64)\<close>, so \<^verbatim>\<open>get_block\<close> is not \<^verbatim>\<open>NULL\<close>.
\<close>

definition dup_pointer :: "slot \<Rightarrow> bool \<Rightarrow> nat \<Rightarrow> state \<Rightarrow> state" where
  "dup_pointer sl fix i s =
     (let p = pointer (fs_image s) i sl
      in if p \<noteq> 0 then
           if p \<ge> DATA_BLOCK_START_NUM \<and> p < TOTAL_BLOCKS then
             if block_ref_count s (unat p) then
               let s1 = print (Error (Dup_error sl p (inode_refs s (unat p)) i)) (invalid s)
               in if fix then
                    poke32 (inode_at i + slot_offset sl) 0 (print (Fixing (Dup_fixing i)) s1)
                  else s1
             else
               let s1 = s\<lparr>block_ref_count := (block_ref_count s)(unat p := True),
                           inode_refs := (inode_refs s)(unat p := int i)\<rparr>
               in if sl = Direct then s1
                  else (case get_block (sint p) of
                          None \<Rightarrow> s1
                        | Some blk \<Rightarrow> dup_entries (slot_depth sl) fix i blk s1)
           else s
         else s)"

definition dup_inode :: "bool \<Rightarrow> nat \<Rightarrow> state \<Rightarrow> state" where
  "dup_inode fix i s =
     (if \<not> is_inode_valid (fs_image s) i then s
      else dup_pointer Triple fix i
            (dup_pointer Double fix i
              (dup_pointer Single fix i
                (dup_pointer Direct fix i s))))"

definition check_duplicate_blocks :: "bool \<Rightarrow> bool \<Rightarrow> state \<Rightarrow> bool \<times> state" where
  "check_duplicate_blocks fix alloc_ok s =
     (let s0 = print (Banner Duplicate_blocks) (s\<lparr>isValid := True\<rparr>);
          s1 = s0\<lparr>block_ref_count := (\<lambda>_. False)\<rparr>
      in if \<not> alloc_ok then (False, print Alloc_failed s1)
         else
           let s2 = fold (dup_inode fix) [0..<INODE_COUNT] (s1\<lparr>inode_refs := (\<lambda>_. 0)\<rparr>)
           in (isValid s2, s2))"

section \<open>Pass 5: bad blocks\<close>

text \<open>
  The same structure: \<open>bad_leaf\<close> is the body of an innermost loop,
  \<open>bad_node\<close> of an outer one.  \<open>sl\<close> and the depth only select the wording
  of the message.
\<close>

definition bad_leaf :: "bool \<Rightarrow> slot \<Rightarrow> nat \<Rightarrow> nat \<Rightarrow> nat \<Rightarrow> state \<Rightarrow> state" where
  "bad_leaf fix sl i base j s =
     (let v = read32 (fs_image s) (base + 4 * j)
      in if v \<ge> TOTAL_BLOCKS then
           let s1 = print (Error (Bad_entry sl 0 i v)) s;
               s2 = (if fix then poke32 (base + 4 * j) 0 (print (Fixing (Bad_fix_entry sl 0 j i)) s1)
                     else s1)
           in invalid s2
         else s)"

definition bad_node :: "(nat \<Rightarrow> state \<Rightarrow> state) \<Rightarrow> bool \<Rightarrow> slot \<Rightarrow> nat \<Rightarrow> nat \<Rightarrow> nat \<Rightarrow> nat \<Rightarrow> state \<Rightarrow> state" where
  "bad_node descend fix sl d i base j s =
     (let v = read32 (fs_image s) (base + 4 * j)
      in if v \<ge> TOTAL_BLOCKS then
           let s1 = print (Error (Bad_entry sl d i v)) s;
               s2 = (if fix then poke32 (base + 4 * j) 0 (print (Fixing (Bad_fix_entry sl d j i)) s1)
                     else s1)
           in invalid s2
         else if v \<noteq> 0 then
           (case get_block (sint v) of
              None \<Rightarrow> s
            | Some blk \<Rightarrow> descend blk s)
         else s)"

primrec bad_entries :: "nat \<Rightarrow> bool \<Rightarrow> slot \<Rightarrow> nat \<Rightarrow> nat \<Rightarrow> state \<Rightarrow> state" where
  "bad_entries 0 fix sl i base s = fold (bad_leaf fix sl i base) [0..<entries_per_block] s"
| "bad_entries (Suc d) fix sl i base s =
     fold (bad_node (bad_entries d fix sl i) fix sl (Suc d) i base) [0..<entries_per_block] s"

definition bad_pointer :: "slot \<Rightarrow> bool \<Rightarrow> nat \<Rightarrow> state \<Rightarrow> state" where
  "bad_pointer sl fix i s =
     (let p = pointer (fs_image s) i sl
      in if p \<ge> TOTAL_BLOCKS then
           let s1 = print (Error (Bad_top sl i p)) s;
               s2 = (if fix then
                       poke32 (inode_at i + slot_offset sl) 0 (print (Fixing (Bad_fix_top sl i)) s1)
                     else s1)
           in invalid s2
         else if sl \<noteq> Direct \<and> p \<noteq> 0 then
           (case get_block (sint p) of
              None \<Rightarrow> s
            | Some blk \<Rightarrow> bad_entries (slot_depth sl) fix sl i blk s)
         else s)"

definition bad_inode :: "bool \<Rightarrow> nat \<Rightarrow> state \<Rightarrow> state" where
  "bad_inode fix i s =
     (if \<not> is_inode_valid (fs_image s) i then s
      else bad_pointer Triple fix i
            (bad_pointer Double fix i
              (bad_pointer Single fix i
                (bad_pointer Direct fix i s))))"

definition check_bad_blocks :: "bool \<Rightarrow> state \<Rightarrow> bool \<times> state" where
  "check_bad_blocks fix s =
     (let s0 = print (Banner Bad_blocks) (s\<lparr>isValid := True\<rparr>);
          s1 = fold (bad_inode fix) [0..<INODE_COUNT] s0
      in (isValid s1, s1))"

section \<open>The orchestrator\<close>

text \<open>
  What \<^verbatim>\<open>main\<close> gets from outside: the arguments, the file \<^verbatim>\<open>fopen\<close> finds (its
  size as \<^verbatim>\<open>ftell\<close> reports it and its bytes), whether each allocation succeeds,
  and how many bytes \<^verbatim>\<open>fread\<close> and \<^verbatim>\<open>fwrite\<close> transfer.  \<open>pass_alloc_ok k\<close>
  answers the \<open>k\<close>-th \<^verbatim>\<open>calloc\<close> made inside a pass, in call order.
\<close>

record image_file =
  file_size :: int
  file_data :: image

record env =
  argv :: "string list"
  disk :: "image_file option"
  malloc_ok :: bool
  fread_count :: int
  calloc_ok :: bool
  pass_alloc_ok :: "nat \<Rightarrow> bool"
  fwrite_count :: nat

text \<open>
  What a run leaves behind: the exit status, the lines printed, the buffer as
  it was when the program ended (if the image was loaded), the buffers handed
  to \<^verbatim>\<open>fwrite\<close>, one per call, and the file afterwards.
\<close>

record outcome =
  exit_code :: int
  console :: "line list"
  buffer :: "image option"
  fwrite_calls :: "image list"
  disk_after :: "image_file option"

definition failed :: "env \<Rightarrow> failure \<Rightarrow> outcome" where
  "failed e why = \<lparr>exit_code = 1, console = [Stderr why], buffer = None,
     fwrite_calls = [], disk_after = disk e\<rparr>"

text \<open>The five calls, in the order \<^verbatim>\<open>main\<close> makes them (both times).\<close>

definition audit :: "bool \<Rightarrow> bool \<Rightarrow> bool \<Rightarrow> state
    \<Rightarrow> (bool \<times> bool \<times> bool \<times> bool \<times> bool) \<times> state" where
  "audit fix alloc_used alloc_refs s =
     (case validate_superblock fix s of (sb_valid, s1) \<Rightarrow>
      case validate_data_bitmap fix alloc_used s1 of (data_bitmap_valid, s2) \<Rightarrow>
      case validate_inode_bitmap fix s2 of (inode_bitmap_valid, s3) \<Rightarrow>
      case check_duplicate_blocks fix alloc_refs s3 of (no_duplicates, s4) \<Rightarrow>
      case check_bad_blocks fix s4 of (no_bad_blocks, s5) \<Rightarrow>
        ((sb_valid, data_bitmap_valid, inode_bitmap_valid, no_duplicates, no_bad_blocks), s5))"

fun all_valid :: "bool \<times> bool \<times> bool \<times> bool \<times> bool \<Rightarrow> bool" where
  "all_valid (sb_valid, data_bitmap_valid, inode_bitmap_valid, no_duplicates, no_bad_blocks) =
     (sb_valid \<and> data_bitmap_valid \<and> inode_bitmap_valid \<and> no_duplicates \<and> no_bad_blocks)"

fun summary :: "(pass \<Rightarrow> bool \<Rightarrow> report) \<Rightarrow> bool \<times> bool \<times> bool \<times> bool \<times> bool \<Rightarrow> line list" where
  "summary row (sb_valid, data_bitmap_valid, inode_bitmap_valid, no_duplicates, no_bad_blocks) =
     [Report (row Superblock sb_valid), Report (row Data_bitmap data_bitmap_valid),
      Report (row Inode_bitmap inode_bitmap_valid), Report (row Duplicate_blocks no_duplicates),
      Report (row Bad_blocks no_bad_blocks)]"

definition prints :: "line list \<Rightarrow> state \<Rightarrow> state" where
  "prints ls s = s\<lparr>printed := printed s @ ls\<rparr>"

definition loaded :: "image_file \<Rightarrow> state" where
  "loaded f = \<lparr>fs_image = file_data f, block_ref_count = (\<lambda>_. False),
     inode_refs = (\<lambda>_. 0), block_used = (\<lambda>_. False), isValid = True, printed = []\<rparr>"

definition fix_requested :: "env \<Rightarrow> bool" where
  "fix_requested e \<longleftrightarrow> length (argv e) = 3 \<and> argv e ! 2 = ''--fix''"

definition main :: "env \<Rightarrow> outcome" where
  "main e =
     (if length (argv e) < 2 \<or> length (argv e) > 3 then failed e Usage
      else
        let fix_errors = fix_requested e
        in case disk e of
             None \<Rightarrow> failed e Perror_open
           | Some f \<Rightarrow>
               if file_size f \<noteq> TOTAL_BLOCKS * int BLOCK_SIZE then failed e (Size_mismatch (file_size f))
               else if \<not> malloc_ok e then failed e Perror_malloc
               else if fread_count e \<noteq> file_size f then failed e Perror_read
               else if \<not> calloc_ok e then failed e Perror_calloc
               else
                 let s0 = prints [Report Title, Report Title_rule,
                                  Report (Image_name (argv e ! 1)), Report (Mode fix_errors)]
                            (loaded f)
                 in case audit fix_errors (pass_alloc_ok e 0) (pass_alloc_ok e 1) s0 of
                      (verdicts, s1) \<Rightarrow>
                        let fs_valid = all_valid verdicts;
                            s2 = prints (Report Summary_header # summary Summary verdicts
                                           @ [Report (Overall fs_valid)]) s1
                        in if fix_errors \<and> \<not> fs_valid then
                             case audit False (pass_alloc_ok e 2) (pass_alloc_ok e 3)
                                    (print (Report Recheck_header) s2) of
                               (rechecks, s3) \<Rightarrow>
                                 let fs_valid_recheck = all_valid rechecks;
                                     s4 = prints (Report Post_summary_header
                                                    # summary Post_summary rechecks
                                                    @ [Report (Post_overall fs_valid_recheck)]) s3;
                                     s5 = (if \<not> fs_valid_recheck
                                           then prints [Report Warning, Report Advice] s4 else s4);
                                     s6 = (if int (fwrite_count e) \<noteq> file_size f
                                           then print (Stderr Perror_write) s5 else s5)
                                 in \<lparr>exit_code = 0, console = printed s6,
                                      buffer = Some (fs_image s6),
                                      fwrite_calls = [fs_image s5],
                                      disk_after = Some \<lparr>file_size = file_size f,
                                         file_data = (\<lambda>a. if a < fwrite_count e then fs_image s5 a
                                                          else file_data f a)\<rparr>\<rparr>
                           else \<lparr>exit_code = 0, console = printed s2,
                                  buffer = Some (fs_image s2), fwrite_calls = [],
                                  disk_after = Some f\<rparr>)"

section \<open>Notions used in the statements\<close>

text \<open>The banners printed so far: each pass prints its own on entry.\<close>

definition banners :: "state \<Rightarrow> line list" where
  "banners s = filter is_banner (printed s)"

text \<open>
  \<open>loads e f\<close>: the run gets past argument handling, finds the file \<open>f\<close> with
  the right size, and every step of loading succeeds, so that the passes run.
\<close>

definition loads :: "env \<Rightarrow> image_file \<Rightarrow> bool" where
  "loads e f \<longleftrightarrow> 2 \<le> length (argv e) \<and> length (argv e) \<le> 3 \<and> disk e = Some f
     \<and> file_size f = 262144 \<and> malloc_ok e \<and> fread_count e = file_size f \<and> calloc_ok e"

definition greeting :: "env \<Rightarrow> line list" where
  "greeting e = [Report Title, Report Title_rule, Report (Image_name (argv e ! 1)),
     Report (Mode (fix_requested e))]"

text \<open>The first five calls of \<^verbatim>\<open>main\<close> and, in a repairing run, the second five.\<close>

definition first_round :: "env \<Rightarrow> image_file \<Rightarrow> (bool \<times> bool \<times> bool \<times> bool \<times> bool) \<times> state" where
  "first_round e f = audit (fix_requested e) (pass_alloc_ok e 0) (pass_alloc_ok e 1)
     (prints (greeting e) (loaded f))"

definition first_summary :: "env \<Rightarrow> image_file \<Rightarrow> line list" where
  "first_summary e f = Report Summary_header # summary Summary (fst (first_round e f))
     @ [Report (Overall (all_valid (fst (first_round e f))))]"

definition second_round :: "env \<Rightarrow> image_file \<Rightarrow> (bool \<times> bool \<times> bool \<times> bool \<times> bool) \<times> state" where
  "second_round e f = audit False (pass_alloc_ok e 2) (pass_alloc_ok e 3)
     (print (Report Recheck_header) (prints (first_summary e f) (snd (first_round e f))))"

definition repairs :: "env \<Rightarrow> image_file \<Rightarrow> bool" where
  "repairs e f \<longleftrightarrow> fix_requested e \<and> \<not> all_valid (fst (first_round e f))"

section \<open>Concrete inputs\<close>

definition blank :: image where
  "blank = (\<lambda>_. 0)"

text \<open>An environment in which nothing fails: the file has 262144 bytes \<open>m\<close>.\<close>

definition env_of :: "string list \<Rightarrow> image \<Rightarrow> env" where
  "env_of args m = \<lparr>argv = args, disk = Some \<lparr>file_size = 262144, file_data = m\<rparr>,
     malloc_ok = True, fread_count = 262144, calloc_ok = True,
     pass_alloc_ok = (\<lambda>_. True), fwrite_count = 262144\<rparr>"

definition check_only :: "string list" where
  "check_only = [''vsfsck'', ''vsfs.img'']"

definition with_fix :: "string list" where
  "with_fix = [''vsfsck'', ''vsfs.img'', ''--fix'']"

text \<open>The image of scenario S6 is one byte short.\<close>

definition short_env :: env where
  "short_env = (env_of check_only blank)\<lparr>disk := Some \<lparr>file_size = 262143, file_data = blank\<rparr>\<rparr>"

text \<open>An environment in which every \<^verbatim>\<open>calloc\<close> made by a pass fails.\<close>

definition starved_env :: env where
  "starved_env = (env_of check_only blank)\<lparr>pass_alloc_ok := (\<lambda>_. False)\<rparr>"

definition findings :: "state \<Rightarrow> line list" where
  "findings s = filter is_finding (printed s)"

definition tame :: "(state \<Rightarrow> state) \<Rightarrow> (state \<Rightarrow> state) \<Rightarrow> bool" where
  "tame tT tF \<longleftrightarrow> (\<forall>s. isValid (tF s) \<longrightarrow>
     isValid s \<and> tT s = tF s \<and> findings (tF s) = findings s \<and> fs_image (tF s) = fs_image s)"

definition finds_nothing :: "env \<Rightarrow> image_file \<Rightarrow> bool" where
  "finds_nothing e f \<longleftrightarrow> all_valid (fst (audit False (pass_alloc_ok e 0) (pass_alloc_ok e 1)
     (prints (greeting e) (loaded f))))"

definition top_level_ref :: "image \<Rightarrow> nat \<Rightarrow> bool" where
  "top_level_ref m k \<longleftrightarrow> (\<exists>i<INODE_COUNT. is_inode_valid m i \<and>
     (\<exists>sl. pointer m i sl = of_nat (k + DATA_BLOCK_START_NUM)))"

definition formatted :: image where
  "formatted = fold (\<lambda>f m. sb_put m f) sb_fields blank"

definition s1_image :: image where
  "s1_image = write32 (write32 (set_bit_in (set_bit_in formatted inode_bitmap 0) data_bitmap 0)
     (inode_at 0 + 32) 1) (inode_at 0 + 40) 8"

definition s2_image :: image where
  "s2_image = write32 (write32 (set_bit_in formatted data_bitmap 0)
     (inode_at 0 + 32) 1) (inode_at 0 + 40) 8"

definition lone_file :: "image \<Rightarrow> bool \<Rightarrow> bool" where
  "lone_file m marked \<longleftrightarrow> (\<forall>f. sb_get m f = sb_expected f)
     \<and> (\<forall>i<INODE_COUNT. is_inode_valid m i \<longleftrightarrow> i = 0)
     \<and> (\<forall>sl. pointer m 0 sl = (if sl = Direct then 8 else 0))
     \<and> (\<forall>k<DATA_BLOCKS_COUNT. is_bit_set m data_bitmap k \<longleftrightarrow> k = 0)
     \<and> (\<forall>i<INODE_COUNT. is_bit_set m inode_bitmap i \<longleftrightarrow> i = 0 \<and> marked)"

definition image_of :: "image \<Rightarrow> image_file" where
  "image_of m = \<lparr>file_size = 262144, file_data = m\<rparr>"

text \<open>A formatted image whose only file is inode 1, with block 10, and no bitmap bit set.\<close>

definition second_file :: image where
  "second_file = write32 (write32 formatted (inode_at 1 + 32) 1) (inode_at 1 + 40) 10"

text \<open>
  What the bad-block pass tests and what it leaves behind.  \<open>bad\<close> is the test
  \<^verbatim>\<open>>= TOTAL_BLOCKS\<close> the pass applies to every number it reads; \<open>entry m p j\<close> is
  \<^verbatim>\<open>((uint32_t *)get_block(p))[j]\<close>.  A pointer is \<open>clean\<close> at depth 0 when it is
  not bad, and at depth \<open>d + 1\<close> when it is not bad and, unless it is zero, the
  1024 entries of the block it names are clean at depth \<open>d\<close>.
\<close>

definition bad :: "u32 \<Rightarrow> bool" where
  "bad b \<longleftrightarrow> b \<ge> TOTAL_BLOCKS"

definition entry :: "image \<Rightarrow> u32 \<Rightarrow> nat \<Rightarrow> u32" where
  "entry m p j = read32 m (unat p * BLOCK_SIZE + 4 * j)"

fun clean :: "nat \<Rightarrow> image \<Rightarrow> u32 \<Rightarrow> bool" where
  "clean 0 m p = (\<not> bad p)"
| "clean (Suc d) m p = (\<not> bad p \<and> (p \<noteq> 0 \<longrightarrow> (\<forall>j<entries_per_block. clean d m (entry m p j))))"

text \<open>
  The depth at which each pointer field is walked, and an inode all of whose
  fields are clean.
\<close>

fun slot_levels :: "slot \<Rightarrow> nat" where
  "slot_levels Direct = 0"
| "slot_levels Single = 1"
| "slot_levels Double = 2"
| "slot_levels Triple = 3"

definition inode_clean :: "image \<Rightarrow> nat \<Rightarrow> bool" where
  "inode_clean m i \<longleftrightarrow> (\<forall>sl. clean (slot_levels sl) m (pointer m i sl))"

text \<open>
  \<open>bad_zeroed m m'\<close>: the image \<open>m'\<close> is \<open>m\<close> except for aligned words that held
  a bad number in \<open>m\<close> and hold zero in \<open>m'\<close>.
\<close>

definition bad_zeroed :: "image \<Rightarrow> image \<Rightarrow> bool" where
  "bad_zeroed m m' \<longleftrightarrow> (\<forall>a. 4 dvd a \<longrightarrow>
     read32 m' a = read32 m a \<or> (bad (read32 m a) \<and> read32 m' a = 0))"

text \<open>
  The state in which the loop of \<^verbatim>\<open>check_bad_blocks\<close> reaches inode \<open>i\<close>.
\<close>

definition bad_visit :: "bool \<Rightarrow> state \<Rightarrow> nat \<Rightarrow> state" where
  "bad_visit fix s i = fold (bad_inode fix) [0..<i] (print (Banner Bad_blocks) (s\<lparr>isValid := True\<rparr>))"

text \<open>
  Scenario S1 with the direct pointer of inode 0 replaced by 100, a bad
  number.
\<close>

definition bad_file :: image where
  "bad_file = write32 s1_image (inode_at 0 + 40) 100"

text \<open>
  A formatted image whose only file is inode 6; its single-indirect field
  names block 1, the inode bitmap, in which bit 6 is set.
\<close>

definition meta_file :: image where
  "meta_file = write32 (write32 (write32 formatted inode_bitmap 64)
     (inode_at 6 + 32) 1) (inode_at 6 + 44) 1"

text \<open>
  Scenario S1 with the direct pointer of inode 0 replaced by 3, a block of
  the inode table.
\<close>

definition low_file :: image where
  "low_file = write32 s1_image (inode_at 0 + 40) 3"

text \<open>
  \<open>calm t\<close>: when the local \<^verbatim>\<open>isValid\<close> is still true after \<open>t\<close>, it was true
  before and \<open>t\<close> has not written to the image.
\<close>

definition calm :: "(state \<Rightarrow> state) \<Rightarrow> bool" where
  "calm t \<longleftrightarrow> (\<forall>s. isValid (t s) \<longrightarrow> isValid s \<and> fs_image (t s) = fs_image s)"

text \<open>
  What \<^verbatim>\<open>validate_inode_bitmap\<close> returned in a round of five calls, the image
  property it checks, and the last round of a run: the re-audit when the run
  repairs, the only round otherwise.
\<close>

fun inode_bitmap_verdict :: "bool \<times> bool \<times> bool \<times> bool \<times> bool \<Rightarrow> bool" where
  "inode_bitmap_verdict (sb_valid, data_bitmap_valid, inode_bitmap_valid, no_duplicates, no_bad_blocks) =
     inode_bitmap_valid"

definition bitmap_agrees :: "image \<Rightarrow> bool" where
  "bitmap_agrees m \<longleftrightarrow> (\<forall>i<INODE_COUNT. is_bit_set m inode_bitmap i = is_inode_valid m i)"

definition last_round :: "env \<Rightarrow> image_file \<Rightarrow> (bool \<times> bool \<times> bool \<times> bool \<times> bool) \<times> state" where
  "last_round e f = (if repairs e f then second_round e f else first_round e f)"

text \<open>
  A formatted image whose only file is inode 5, with 100 links and its bit
  set in the inode bitmap; its single-indirect field names block 3, the block
  of the inode table in which inode 5 lies.  \<open>table_file_repaired\<close> is the same
  image with \<^verbatim>\<open>links_count\<close> of inode 5 overwritten by zero.
\<close>

definition table_file :: image where
  "table_file = write32 (write32 (set_bit_in formatted inode_bitmap 5)
     (inode_at 5 + 32) 100) (inode_at 5 + 44) 3"

definition table_file_repaired :: image where
  "table_file_repaired = write32 table_file (inode_at 5 + 32) 0"

text \<open>
  A formatted image whose only file is inode 0; its double-indirect field
  names block 8, entries 0 and 1 of block 8 both name block 9, and entry 0 of
  block 9 names block 10.  \<open>twice_file_repaired\<close> is the same image with entry 1
  of block 8 and entry 0 of block 9 overwritten by zero.
\<close>

definition twice_file :: image where
  "twice_file = write32 (write32 (write32 (write32 (write32 formatted
     (inode_at 0 + 32) 1) (inode_at 0 + 48) 8) (8 * BLOCK_SIZE) 9) (8 * BLOCK_SIZE + 4) 9)
     (9 * BLOCK_SIZE) 10"

definition twice_file_repaired :: image where
  "twice_file_repaired = write32 (write32 twice_file (8 * BLOCK_SIZE + 4) 0) (9 * BLOCK_SIZE) 0"


section \<open>Printing and state updates\<close>

lemma fs_image_print [simp]: "fs_image (print l s) = fs_image s"
  by (simp add: print_def)

lemma fs_image_prints [simp]: "fs_image (prints ls s) = fs_image s"
  by (simp add: prints_def)

lemma printed_print [simp]: "printed (print l s) = printed s @ [l]"
  by (simp add: print_def)

lemma printed_prints [simp]: "printed (prints ls s) = printed s @ ls"
  by (simp add: prints_def)

lemma fold_preserves:
  assumes "\<And>x s. g (f x s) = g s"
  shows "g (fold f xs s) = g s"
  by (induction xs arbitrary: s) (simp_all add: assms)

section \<open>The order of the passes\<close>

lemma banners_print [simp]: "banners (print l s) = banners s @ (if is_banner l then [l] else [])"
  by (simp add: banners_def print_def)

lemma banners_upd [simp]:
  "banners (s\<lparr>fs_image := m\<rparr>) = banners s"
  "banners (s\<lparr>isValid := v\<rparr>) = banners s"
  "banners (s\<lparr>block_used := u\<rparr>) = banners s"
  "banners (s\<lparr>block_ref_count := c\<rparr>) = banners s"
  "banners (s\<lparr>inode_refs := r\<rparr>) = banners s"
  "banners (poke32 a w s) = banners s"
  "banners (invalid s) = banners s"
  by (simp_all add: banners_def poke32_def invalid_def)

lemma is_banner_simps [simp]:
  "is_banner (Banner p)" "\<not> is_banner (Error e)" "\<not> is_banner (Fixing r)"
  "\<not> is_banner (Sb_valid f n)" "\<not> is_banner Db_checking" "\<not> is_banner Db_validating"
  "\<not> is_banner Dup_note" "\<not> is_banner Alloc_failed" "\<not> is_banner (Report rp)"
  "\<not> is_banner (Stderr fl)"
  by (simp_all add: is_banner_def)

lemma banners_sb_check: "banners (sb_check fix f s) = banners s"
  by (simp add: sb_check_def Let_def)

lemma banners_validate_superblock:
  "banners (snd (validate_superblock fix s)) = banners s @ [Banner Superblock]"
  by (simp add: validate_superblock_def Let_def fold_preserves[where g = banners, OF banners_sb_check])

lemma banners_mark_used: "banners (mark_used p s) = banners s"
  by (simp add: mark_used_def Let_def)

lemma banners_mark_inode: "banners (mark_inode i s) = banners s"
  by (simp add: mark_inode_def banners_mark_used)

lemma banners_db_check: "banners (db_check fix i s) = banners s"
  by (simp add: db_check_def Let_def)

lemma banners_validate_data_bitmap:
  "banners (snd (validate_data_bitmap fix ok s)) = banners s @ [Banner Data_bitmap]"
  by (simp add: validate_data_bitmap_def Let_def
      fold_preserves[where g = banners, OF banners_db_check]
      fold_preserves[where g = banners, OF banners_mark_inode])

lemma banners_ib_check: "banners (ib_check fix i s) = banners s"
  by (simp add: ib_check_def Let_def)

lemma banners_validate_inode_bitmap:
  "banners (snd (validate_inode_bitmap fix s)) = banners s @ [Banner Inode_bitmap]"
  by (simp add: validate_inode_bitmap_def Let_def
      fold_preserves[where g = banners, OF banners_ib_check])

lemma banners_check_dup:
  "banners (snd (check_data_block_for_duplicates v i fix s)) = banners s"
  by (simp add: check_data_block_for_duplicates_def Let_def)

lemma banners_dup_leaf: "banners (dup_leaf fix i base j s) = banners s"
  by (simp add: dup_leaf_def Let_def case_prod_beta banners_check_dup)

lemma banners_dup_node:
  assumes "\<And>b s. banners (descend b s) = banners s"
  shows "banners (dup_node descend fix i base j s) = banners s"
  by (simp add: dup_node_def Let_def case_prod_beta banners_check_dup assms split: option.splits)

lemma banners_dup_entries: "banners (dup_entries d fix i base s) = banners s"
proof (induction d arbitrary: base s)
  case 0
  show ?case by (simp add: fold_preserves[where g = banners, OF banners_dup_leaf])
next
  case (Suc d)
  show ?case
    by (simp add: fold_preserves[where g = banners, OF banners_dup_node] Suc)
qed

lemma banners_dup_pointer: "banners (dup_pointer sl fix i s) = banners s"
  by (simp add: dup_pointer_def Let_def banners_dup_entries split: option.splits)

lemma banners_dup_inode: "banners (dup_inode fix i s) = banners s"
  by (simp add: dup_inode_def banners_dup_pointer)

lemma banners_check_duplicate_blocks:
  "banners (snd (check_duplicate_blocks fix ok s)) = banners s @ [Banner Duplicate_blocks]"
  by (simp add: check_duplicate_blocks_def Let_def
      fold_preserves[where g = banners, OF banners_dup_inode])

lemma banners_bad_leaf: "banners (bad_leaf fix sl i base j s) = banners s"
  by (simp add: bad_leaf_def Let_def)

lemma banners_bad_node:
  assumes "\<And>b s. banners (descend b s) = banners s"
  shows "banners (bad_node descend fix sl d i base j s) = banners s"
  by (simp add: bad_node_def Let_def assms split: option.splits)

lemma banners_bad_entries: "banners (bad_entries d fix sl i base s) = banners s"
proof (induction d arbitrary: base s)
  case 0
  show ?case by (simp add: fold_preserves[where g = banners, OF banners_bad_leaf])
next
  case (Suc d)
  show ?case
    by (simp add: fold_preserves[where g = banners, OF banners_bad_node] Suc)
qed

lemma banners_bad_pointer: "banners (bad_pointer sl fix i s) = banners s"
  by (simp add: bad_pointer_def Let_def banners_bad_entries split: option.splits)

lemma banners_bad_inode: "banners (bad_inode fix i s) = banners s"
  by (simp add: bad_inode_def banners_bad_pointer)

lemma banners_check_bad_blocks:
  "banners (snd (check_bad_blocks fix s)) = banners s @ [Banner Bad_blocks]"
  by (simp add: check_bad_blocks_def Let_def
      fold_preserves[where g = banners, OF banners_bad_inode])

lemma audit_chain:
  "snd (audit fix a b s) =
     snd (check_bad_blocks fix
       (snd (check_duplicate_blocks fix b
         (snd (validate_inode_bitmap fix
           (snd (validate_data_bitmap fix a
             (snd (validate_superblock fix s)))))))))"
  by (simp add: audit_def split: prod.splits)

lemma banners_audit:
  "banners (snd (audit fix a b s)) = banners s @
     [Banner Superblock, Banner Data_bitmap, Banner Inode_bitmap,
      Banner Duplicate_blocks, Banner Bad_blocks]"
  by (simp add: audit_chain banners_check_bad_blocks banners_check_duplicate_blocks
      banners_validate_inode_bitmap banners_validate_data_bitmap banners_validate_superblock)

section \<open>The orchestrator, case by case\<close>

lemma main_exit_code:
  "exit_code (main e) =
     (if length (argv e) < 2 \<or> length (argv e) > 3 then 1
      else case disk e of None \<Rightarrow> 1
        | Some f \<Rightarrow> if file_size f \<noteq> 262144 \<or> \<not> malloc_ok e \<or> fread_count e \<noteq> file_size f
                      \<or> \<not> calloc_ok e then 1 else 0)"
  by (simp add: main_def failed_def Let_def split: option.splits prod.splits)

lemma main_no_repair:
  assumes "loads e f" "\<not> repairs e f"
  shows "main e = \<lparr>exit_code = 0,
     console = printed (snd (first_round e f)) @ first_summary e f,
     buffer = Some (fs_image (snd (first_round e f))), fwrite_calls = [],
     disk_after = Some f\<rparr>"
proof -
  have "\<not> (fix_requested e \<and> \<not> all_valid (fst (audit (fix_requested e) (pass_alloc_ok e 0) (pass_alloc_ok e 1)
     (prints (greeting e) (loaded f)))))"
    using assms(2) by (simp add: repairs_def first_round_def)
  then show ?thesis
    using assms(1)
    by (simp add: main_def loads_def first_round_def first_summary_def greeting_def
      Let_def case_prod_beta prints_def)
qed

lemma main_repair:
  assumes "loads e f" "repairs e f"
  shows "exit_code (main e) = 0"
    and "buffer (main e) = Some (fs_image (snd (second_round e f)))"
    and "fwrite_calls (main e) = [fs_image (snd (second_round e f))]"
    and "disk_after (main e) = Some \<lparr>file_size = file_size f, file_data =
           (\<lambda>a. if a < fwrite_count e then fs_image (snd (second_round e f)) a
                 else file_data f a)\<rparr>"
    and "filter is_banner (console (main e)) = banners (snd (second_round e f))"
proof -
  have fx: "fix_requested e"
    using assms(2) by (simp add: repairs_def)
  have r: "\<not> all_valid (fst (first_round e f))"
    using assms(2) by (simp add: repairs_def)
  have m: "main e = (let s3 = snd (second_round e f);
      s4 = prints (Report Post_summary_header # summary Post_summary (fst (second_round e f))
                 @ [Report (Post_overall (all_valid (fst (second_round e f))))]) s3;
      s5 = (if \<not> all_valid (fst (second_round e f))
              then prints [Report Warning, Report Advice] s4 else s4);
      s6 = (if int (fwrite_count e) \<noteq> file_size f
              then print (Stderr Perror_write) s5 else s5)
      in \<lparr>exit_code = 0, console = printed s6, buffer = Some (fs_image s6),
           fwrite_calls = [fs_image s5],
           disk_after = Some \<lparr>file_size = file_size f, file_data =
              (\<lambda>a. if a < fwrite_count e then fs_image s5 a else file_data f a)\<rparr>\<rparr>)"
    using assms(1) r fx
    by (simp add: main_def loads_def first_round_def first_summary_def greeting_def
      second_round_def Let_def case_prod_beta)
  show "exit_code (main e) = 0" by (simp add: m Let_def)
  show "buffer (main e) = Some (fs_image (snd (second_round e f)))"
    by (simp add: m Let_def cong: if_cong)
  show "fwrite_calls (main e) = [fs_image (snd (second_round e f))]"
    by (simp add: m Let_def cong: if_cong)
  show "disk_after (main e) = Some \<lparr>file_size = file_size f, file_data =
           (\<lambda>a. if a < fwrite_count e then fs_image (snd (second_round e f)) a
                 else file_data f a)\<rparr>"
    by (simp add: m Let_def cong: if_cong)
  show "filter is_banner (console (main e)) = banners (snd (second_round e f))"
    by (cases "fst (second_round e f)")
       (simp add: m Let_def banners_def)
qed

lemma loads_env_of: "length args = 2 \<or> length args = 3 \<Longrightarrow>
    loads (env_of args m) \<lparr>file_size = 262144, file_data = m\<rparr>"
  by (auto simp: loads_def env_of_def)

lemma banners_first_round:
  "banners (snd (first_round e f)) =
     [Banner Superblock, Banner Data_bitmap, Banner Inode_bitmap,
      Banner Duplicate_blocks, Banner Bad_blocks]"
  by (simp add: first_round_def banners_audit)
     (simp add: banners_def greeting_def loaded_def)

lemma banners_second_round:
  "banners (snd (second_round e f)) =
     [Banner Superblock, Banner Data_bitmap, Banner Inode_bitmap,
      Banner Duplicate_blocks, Banner Bad_blocks,
      Banner Superblock, Banner Data_bitmap, Banner Inode_bitmap,
      Banner Duplicate_blocks, Banner Bad_blocks]"
proof -
  have "banners (prints (first_summary e f) (snd (first_round e f)))
      = banners (snd (first_round e f))"
    by (cases "fst (first_round e f)") (simp add: banners_def first_summary_def)
  then show ?thesis
    by (simp add: second_round_def banners_audit banners_first_round)
qed

lemma main_banners:
  assumes "loads e f"
  shows "filter is_banner (console (main e)) =
     [Banner Superblock, Banner Data_bitmap, Banner Inode_bitmap,
      Banner Duplicate_blocks, Banner Bad_blocks]
     @ (if repairs e f then
          [Banner Superblock, Banner Data_bitmap, Banner Inode_bitmap,
           Banner Duplicate_blocks, Banner Bad_blocks]
        else [])"
proof (cases "repairs e f")
  case True
  then show ?thesis
    using main_repair(5)[OF assms True] by (simp add: banners_second_round)
next
  case False
  have "filter is_banner (printed (snd (first_round e f)) @ first_summary e f)
      = banners (snd (first_round e f))"
    by (cases "fst (first_round e f)") (simp add: banners_def first_summary_def)
  then show ?thesis
    using False by (simp add: main_no_repair[OF assms False] banners_first_round)
qed

section \<open>Claims about the orchestrator\<close>

text \<open>
  C2 (as amended).  The passes run in the order in which \<^verbatim>\<open>main\<close> calls them:
  superblock, data bitmap, inode bitmap, duplicate blocks, bad blocks; the data
  bitmap is reconciled before the inode bitmap, not after it.  Each pass starts
  from the state its predecessor returned.  A run that loads the image prints
  the five banners in this order, and once more when it repairs.
\<close>

theorem passes_in_call_order:
  "snd (audit fix a b s) =
     snd (check_bad_blocks fix
       (snd (check_duplicate_blocks fix b
         (snd (validate_inode_bitmap fix
           (snd (validate_data_bitmap fix a
             (snd (validate_superblock fix s)))))))))
   \<and> banners (snd (audit fix a b s)) = banners s @
     [Banner Superblock, Banner Data_bitmap, Banner Inode_bitmap,
      Banner Duplicate_blocks, Banner Bad_blocks]
   \<and> (loads e f \<longrightarrow> filter is_banner (console (main e)) =
     [Banner Superblock, Banner Data_bitmap, Banner Inode_bitmap,
      Banner Duplicate_blocks, Banner Bad_blocks]
     @ (if repairs e f then
          [Banner Superblock, Banner Data_bitmap, Banner Inode_bitmap,
           Banner Duplicate_blocks, Banner Bad_blocks]
        else []))"
  using audit_chain banners_audit main_banners by blast

theorem passes_in_call_order_witness:
  "loads (env_of check_only blank) \<lparr>file_size = 262144, file_data = blank\<rparr>
   \<and> filter is_banner (console (main (env_of check_only blank))) =
     [Banner Superblock, Banner Data_bitmap, Banner Inode_bitmap,
      Banner Duplicate_blocks, Banner Bad_blocks]"
proof -
  have l: "loads (env_of check_only blank) \<lparr>file_size = 262144, file_data = blank\<rparr>"
    by (simp add: loads_env_of check_only_def)
  have "\<not> repairs (env_of check_only blank) \<lparr>file_size = 262144, file_data = blank\<rparr>"
    by (simp add: repairs_def fix_requested_def env_of_def check_only_def)
  then show ?thesis
    using l passes_in_call_order[of _ _ _ _ "env_of check_only blank"
        "\<lparr>file_size = 262144, file_data = blank\<rparr>"]
    by simp
qed

text \<open>
  The order claimed by C2, inode bitmap before data bitmap, is not the order
  of a run: checking the blank image prints the data-bitmap banner first.
\<close>

theorem claimed_order_counterexample:
  "filter is_banner (console (main (env_of check_only blank))) \<noteq>
     [Banner Superblock, Banner Inode_bitmap, Banner Data_bitmap,
      Banner Duplicate_blocks, Banner Bad_blocks]"
  using main_banners[OF loads_env_of[of check_only blank]]
  by (simp add: check_only_def)

text \<open>
  C4 (as amended).  The exit status is 1 exactly when the arguments are wrong,
  the image cannot be opened, its size is not 262144, the image buffer or the
  reference table cannot be allocated, or the read is short.  In every other
  run the passes run to completion and, with a write-back that transfers the
  whole image, the status is 0, whatever was found and also when an
  allocation inside a pass failed.
\<close>

theorem exit_status:
  assumes "int (fwrite_count e) = 262144"
  shows "exit_code (main e) =
     (if length (argv e) < 2 \<or> length (argv e) > 3 then 1
      else case disk e of None \<Rightarrow> 1
        | Some f \<Rightarrow> if file_size f \<noteq> 262144 \<or> \<not> malloc_ok e \<or> fread_count e \<noteq> file_size f
                      \<or> \<not> calloc_ok e then 1 else 0)"
  by (rule main_exit_code)

theorem exit_status_witness:
  "int (fwrite_count short_env) = 262144 \<and> exit_code (main short_env) = 1"
  using exit_status[of short_env]
  by (simp add: short_env_def env_of_def check_only_def)

text \<open>
  An allocation failure that does not end the run with status 1: when the
  \<^verbatim>\<open>calloc\<close> of a pass fails, the pass reports it and \<^verbatim>\<open>main\<close> goes on.
\<close>

theorem exit_status_counterexample:
  "\<not> pass_alloc_ok starved_env 0 \<and> exit_code (main starved_env) = 0"
  by (simp add: main_exit_code starved_env_def env_of_def check_only_def)

lemma tameI:
  assumes "\<And>s. isValid (tF s) \<Longrightarrow>
     isValid s \<and> tT s = tF s \<and> findings (tF s) = findings s \<and> fs_image (tF s) = fs_image s"
  shows "tame tT tF"
  using assms by (simp add: tame_def)

lemma tame_id: "tame (\<lambda>s. s) (\<lambda>s. s)"
  by (simp add: tame_def)

lemma tame_comp:
  assumes "tame t1T t1F" "tame t2T t2F"
  shows "tame (t2T \<circ> t1T) (t2F \<circ> t1F)"
proof (rule tameI)
  fix s
  assume v: "isValid ((t2F \<circ> t1F) s)"
  then have 2: "isValid (t1F s)" "t2T (t1F s) = t2F (t1F s)"
    "findings (t2F (t1F s)) = findings (t1F s)" "fs_image (t2F (t1F s)) = fs_image (t1F s)"
    using assms(2) by (simp_all add: tame_def)
  then have 1: "isValid s" "t1T s = t1F s"
    "findings (t1F s) = findings s" "fs_image (t1F s) = fs_image s"
    using assms(1) by (simp_all add: tame_def)
  show "isValid s \<and> (t2T \<circ> t1T) s = (t2F \<circ> t1F) s \<and>
     findings ((t2F \<circ> t1F) s) = findings s \<and> fs_image ((t2F \<circ> t1F) s) = fs_image s"
    using 1 2 by simp
qed

lemma tame_fold:
  assumes "\<And>x. tame (fT x) (fF x)"
  shows "tame (fold fT xs) (fold fF xs)"
proof (induction xs)
  case Nil
  show ?case by (simp add: tame_def)
next
  case (Cons x xs)
  show ?case
    using tame_comp[OF assms[of x] Cons] by (simp add: comp_def)
qed

lemma is_finding_simps [simp]:
  "\<not> is_finding (Banner p)" "is_finding (Error e)" "\<not> is_finding (Fixing r)"
  "\<not> is_finding (Sb_valid f n)" "\<not> is_finding Db_checking" "\<not> is_finding Db_validating"
  "\<not> is_finding Dup_note" "\<not> is_finding Alloc_failed" "\<not> is_finding (Report rp)"
  "\<not> is_finding (Stderr fl)"
  by (simp_all add: is_finding_def)

lemma findings_simps [simp]:
  "findings (print l s) = findings s @ (if is_finding l then [l] else [])"
  "findings (s\<lparr>fs_image := m\<rparr>) = findings s"
  "findings (s\<lparr>isValid := v\<rparr>) = findings s"
  "findings (s\<lparr>block_used := u\<rparr>) = findings s"
  "findings (s\<lparr>block_ref_count := c\<rparr>) = findings s"
  "findings (s\<lparr>inode_refs := r\<rparr>) = findings s"
  "findings (poke32 a w s) = findings s"
  "findings (invalid s) = findings s"
  by (simp_all add: findings_def poke32_def invalid_def print_def)

lemma proj_simps [simp]:
  "isValid (print l s) = isValid s"
  "isValid (poke32 a w s) = isValid s"
  "isValid (invalid s) = False"
  "fs_image (invalid s) = fs_image s"
  "fs_image (poke32 a w s) = write32 (fs_image s) a w"
  "block_ref_count (print l s) = block_ref_count s"
  "block_ref_count (invalid s) = block_ref_count s"
  "block_ref_count (poke32 a w s) = block_ref_count s"
  "inode_refs (print l s) = inode_refs s"
  "inode_refs (invalid s) = inode_refs s"
  "inode_refs (poke32 a w s) = inode_refs s"
  "block_used (print l s) = block_used s"
  "block_used (invalid s) = block_used s"
  "block_used (poke32 a w s) = block_used s"
  "printed (invalid s) = printed s"
  "printed (poke32 a w s) = printed s"
  by (simp_all add: print_def poke32_def invalid_def)

lemma tameD:
  assumes "tame tT tF" "isValid (tF s)"
  shows "isValid s" "tT s = tF s" "findings (tF s) = findings s" "fs_image (tF s) = fs_image s"
  using assms by (simp_all add: tame_def)

lemma tame_sb_check: "tame (sb_check True f) (sb_check False f)"
  by (rule tameI) (auto simp add: sb_check_def Let_def split: if_splits)

lemma tame_mark_used: "tame (mark_used p) (mark_used p)"
  by (rule tameI) (auto simp add: mark_used_def Let_def findings_def)

lemma tame_mark_inode: "tame (mark_inode i) (mark_inode i)"
proof (rule tameI)
  fix s
  assume v: "isValid (mark_inode i s)"
  show "isValid s \<and> mark_inode i s = mark_inode i s \<and>
     findings (mark_inode i s) = findings s \<and> fs_image (mark_inode i s) = fs_image s"
  proof (cases "is_inode_valid (fs_image s) i")
    case False
    then show ?thesis using v by (simp add: mark_inode_def)
  next
    case True
    let ?t = "mark_used (triple_indirect (fs_image s) i)
            \<circ> (mark_used (double_indirect (fs_image s) i)
              \<circ> (mark_used (single_indirect (fs_image s) i)
                \<circ> mark_used (direct_block (fs_image s) i)))"
    have t: "tame ?t ?t"
      by (intro tame_comp tame_mark_used)
    have e: "mark_inode i s = ?t s" using True by (simp add: mark_inode_def)
    show ?thesis using tameD[OF t, of s] v unfolding e by simp
  qed
qed

lemma tame_db_check: "tame (db_check True i) (db_check False i)"
  by (rule tameI) (auto simp add: db_check_def Let_def split: if_splits)

lemma tame_ib_check: "tame (ib_check True i) (ib_check False i)"
  by (rule tameI) (auto simp add: ib_check_def Let_def split: if_splits)

lemma tame_dup_leaf: "tame (dup_leaf True i base j) (dup_leaf False i base j)"
  by (rule tameI)
     (auto simp add: dup_leaf_def check_data_block_for_duplicates_def Let_def findings_def split: if_splits)

lemma tame_dup_node:
  assumes "\<And>b. tame (dT b) (dF b)"
  shows "tame (dup_node dT True i base j) (dup_node dF False i base j)"
proof (rule tameI)
  fix s
  assume v: "isValid (dup_node dF False i base j s)"
  let ?v = "read32 (fs_image s) (base + 4 * j)"
  let ?c = "check_data_block_for_duplicates ?v i"
  show "isValid s \<and> dup_node dT True i base j s = dup_node dF False i base j s \<and>
     findings (dup_node dF False i base j s) = findings s \<and>
     fs_image (dup_node dF False i base j s) = fs_image s"
  proof (cases "?v = 0")
    case True
    then show ?thesis using v by (simp add: dup_node_def)
  next
    case nz: False
    show ?thesis
    proof (cases "get_block (sint ?v)")
      case None
      then show ?thesis
        using v nz
        by (auto simp add: dup_node_def check_data_block_for_duplicates_def Let_def findings_def
            split: if_splits)
    next
      case (Some b)
      have d: "dup_node dF False i base j s = dF b (if fst (?c False s) then snd (?c False s) else invalid (snd (?c False s)))"
        using nz Some by (simp add: dup_node_def Let_def case_prod_beta)
      have "isValid (if fst (?c False s) then snd (?c False s) else invalid (snd (?c False s)))"
        using tameD(1)[OF assms[of b]] v unfolding d by blast
      then have ok: "fst (?c False s)" by (simp split: if_splits)
      then have same: "?c True s = ?c False s" "findings (snd (?c False s)) = findings s"
         "fs_image (snd (?c False s)) = fs_image s" "isValid (snd (?c False s)) = isValid s"
        by (auto simp add: check_data_block_for_duplicates_def Let_def findings_def split: if_splits)
      have dT: "dup_node dT True i base j s = dT b (snd (?c False s))"
        using nz Some ok same by (simp add: dup_node_def Let_def case_prod_beta)
      have dF: "dup_node dF False i base j s = dF b (snd (?c False s))"
        using ok d by simp
      show ?thesis
        using tameD[OF assms[of b], of "snd (?c False s)"] v same unfolding dT dF by simp
    qed
  qed
qed

lemma tame_dup_entries: "tame (dup_entries d True i base) (dup_entries d False i base)"
proof (induction d arbitrary: base)
  case 0
  have "tame (fold (dup_leaf True i base) [0..<1024]) (fold (dup_leaf False i base) [0..<1024])"
    by (rule tame_fold) (rule tame_dup_leaf)
  then show ?case by (simp add: tame_def)
next
  case (Suc d)
  have "tame (fold (dup_node (dup_entries d True i) True i base) [0..<1024])
             (fold (dup_node (dup_entries d False i) False i base) [0..<1024])"
    by (rule tame_fold) (rule tame_dup_node, rule Suc)
  then show ?case by (simp add: tame_def)
qed

lemma tame_dup_pointer: "tame (dup_pointer sl True i) (dup_pointer sl False i)"
proof (rule tameI)
  fix s
  assume v: "isValid (dup_pointer sl False i s)"
  let ?p = "pointer (fs_image s) i sl"
  let ?s1 = "s\<lparr>block_ref_count := (block_ref_count s)(unat ?p := True),
                inode_refs := (inode_refs s)(unat ?p := int i)\<rparr>"
  show "isValid s \<and> dup_pointer sl True i s = dup_pointer sl False i s \<and>
     findings (dup_pointer sl False i s) = findings s \<and>
     fs_image (dup_pointer sl False i s) = fs_image s"
  proof (cases "?p \<noteq> 0 \<and> ?p \<ge> 8 \<and> ?p < 64 \<and> \<not> block_ref_count s (unat ?p) \<and> sl \<noteq> Direct")
    case False
    then show ?thesis
      using v by (auto simp add: dup_pointer_def Let_def findings_def split: if_splits)
  next
    case True
    show ?thesis
    proof (cases "get_block (sint ?p)")
      case None
      then show ?thesis
        using v True by (auto simp add: dup_pointer_def Let_def findings_def)
    next
      case (Some b)
      have eT: "dup_pointer sl True i s = dup_entries (slot_depth sl) True i b ?s1"
        and eF: "dup_pointer sl False i s = dup_entries (slot_depth sl) False i b ?s1"
        using True Some by (simp_all add: dup_pointer_def Let_def)
      show ?thesis
        using tameD[OF tame_dup_entries, of "slot_depth sl" i b ?s1] v unfolding eT eF
        by (simp add: findings_def)
    qed
  qed
qed

lemma tame_dup_inode: "tame (dup_inode True i) (dup_inode False i)"
proof (rule tameI)
  fix s
  assume v: "isValid (dup_inode False i s)"
  show "isValid s \<and> dup_inode True i s = dup_inode False i s \<and>
     findings (dup_inode False i s) = findings s \<and> fs_image (dup_inode False i s) = fs_image s"
  proof (cases "is_inode_valid (fs_image s) i")
    case False
    then show ?thesis using v by (simp add: dup_inode_def)
  next
    case True
    let ?t = "\<lambda>fx. dup_pointer Triple fx i \<circ> (dup_pointer Double fx i
                \<circ> (dup_pointer Single fx i \<circ> dup_pointer Direct fx i))"
    have t: "tame (?t True) (?t False)"
      by (intro tame_comp tame_dup_pointer)
    have e: "dup_inode fx i s = ?t fx s" for fx using True by (simp add: dup_inode_def)
    show ?thesis using tameD[OF t, of s] v unfolding e by simp
  qed
qed

lemma tame_bad_leaf: "tame (bad_leaf True sl i base j) (bad_leaf False sl i base j)"
  by (rule tameI) (auto simp add: bad_leaf_def Let_def split: if_splits)

lemma tame_bad_node:
  assumes "\<And>b. tame (dT b) (dF b)"
  shows "tame (bad_node dT True sl d i base j) (bad_node dF False sl d i base j)"
proof (rule tameI)
  fix s
  assume v: "isValid (bad_node dF False sl d i base j s)"
  let ?v = "read32 (fs_image s) (base + 4 * j)"
  show "isValid s \<and> bad_node dT True sl d i base j s = bad_node dF False sl d i base j s \<and>
     findings (bad_node dF False sl d i base j s) = findings s \<and>
     fs_image (bad_node dF False sl d i base j s) = fs_image s"
  proof (cases "?v < 64 \<and> ?v \<noteq> 0")
    case False
    then show ?thesis
      using v by (auto simp add: bad_node_def Let_def split: if_splits)
  next
    case True
    show ?thesis
    proof (cases "get_block (sint ?v)")
      case None
      then show ?thesis using v True by (auto simp add: bad_node_def Let_def)
    next
      case (Some b)
      have eT: "bad_node dT True sl d i base j s = dT b s"
        and eF: "bad_node dF False sl d i base j s = dF b s"
        using True Some by (auto simp add: bad_node_def Let_def)
      show ?thesis using tameD[OF assms[of b], of s] v unfolding eT eF by simp
    qed
  qed
qed

lemma tame_bad_entries: "tame (bad_entries d True sl i base) (bad_entries d False sl i base)"
proof (induction d arbitrary: base)
  case 0
  have "tame (fold (bad_leaf True sl i base) [0..<1024]) (fold (bad_leaf False sl i base) [0..<1024])"
    by (rule tame_fold) (rule tame_bad_leaf)
  then show ?case by (simp add: tame_def)
next
  case (Suc d)
  have "tame (fold (bad_node (bad_entries d True sl i) True sl (Suc d) i base) [0..<1024])
             (fold (bad_node (bad_entries d False sl i) False sl (Suc d) i base) [0..<1024])"
    by (rule tame_fold) (rule tame_bad_node, rule Suc)
  then show ?case by (simp add: tame_def)
qed

lemma tame_bad_pointer: "tame (bad_pointer sl True i) (bad_pointer sl False i)"
proof (rule tameI)
  fix s
  assume v: "isValid (bad_pointer sl False i s)"
  let ?p = "pointer (fs_image s) i sl"
  show "isValid s \<and> bad_pointer sl True i s = bad_pointer sl False i s \<and>
     findings (bad_pointer sl False i s) = findings s \<and>
     fs_image (bad_pointer sl False i s) = fs_image s"
  proof (cases "?p < 64 \<and> sl \<noteq> Direct \<and> ?p \<noteq> 0")
    case False
    then show ?thesis
      using v by (auto simp add: bad_pointer_def Let_def split: if_splits)
  next
    case True
    show ?thesis
    proof (cases "get_block (sint ?p)")
      case None
      then show ?thesis using v True by (auto simp add: bad_pointer_def Let_def)
    next
      case (Some b)
      have eT: "bad_pointer sl True i s = bad_entries (slot_depth sl) True sl i b s"
        and eF: "bad_pointer sl False i s = bad_entries (slot_depth sl) False sl i b s"
        using True Some by (auto simp add: bad_pointer_def Let_def)
      show ?thesis
        using tameD[OF tame_bad_entries, of "slot_depth sl" sl i b s] v unfolding eT eF by simp
    qed
  qed
qed

lemma tame_bad_inode: "tame (bad_inode True i) (bad_inode False i)"
proof (rule tameI)
  fix s
  assume v: "isValid (bad_inode False i s)"
  show "isValid s \<and> bad_inode True i s = bad_inode False i s \<and>
     findings (bad_inode False i s) = findings s \<and> fs_image (bad_inode False i s) = fs_image s"
  proof (cases "is_inode_valid (fs_image s) i")
    case False
    then show ?thesis using v by (simp add: bad_inode_def)
  next
    case True
    let ?t = "\<lambda>fx. bad_pointer Triple fx i \<circ> (bad_pointer Double fx i
                \<circ> (bad_pointer Single fx i \<circ> bad_pointer Direct fx i))"
    have t: "tame (?t True) (?t False)"
      by (intro tame_comp tame_bad_pointer)
    have e: "bad_inode fx i s = ?t fx s" for fx using True by (simp add: bad_inode_def)
    show ?thesis using tameD[OF t, of s] v unfolding e by simp
  qed
qed

text \<open>Pass level: a pass that finds nothing in check-only mode does the same when repairing.\<close>

lemma quiet_validate_superblock:
  assumes "fst (validate_superblock False s)"
  shows "validate_superblock True s = validate_superblock False s"
    and "findings (snd (validate_superblock False s)) = findings s"
    and "fs_image (snd (validate_superblock False s)) = fs_image s"
  using assms tameD[OF tame_fold[of "sb_check True" "sb_check False", OF tame_sb_check],
      of sb_fields "print (Banner Superblock) (s\<lparr>isValid := True\<rparr>)"]
  by (simp_all add: validate_superblock_def Let_def)

lemma quiet_validate_data_bitmap:
  assumes "fst (validate_data_bitmap False ok s)"
  shows "validate_data_bitmap True ok s = validate_data_bitmap False ok s"
    and "findings (snd (validate_data_bitmap False ok s)) = findings s"
    and "fs_image (snd (validate_data_bitmap False ok s)) = fs_image s"
proof -
  have ok: ok using assms by (auto simp: validate_data_bitmap_def Let_def split: if_splits)
  let ?s1 = "print Db_checking (print (Banner Data_bitmap) (s\<lparr>isValid := True\<rparr>)\<lparr>block_used := (\<lambda>_. False)\<rparr>)"
  let ?t = "\<lambda>fx. fold (db_check fx) [0..<56] \<circ> (print Db_validating \<circ> fold mark_inode [0..<80])"
  have p: "tame (print Db_validating) (print Db_validating)"
    by (rule tameI) simp
  have t: "tame (?t True) (?t False)"
    by (intro tame_comp tame_fold tame_db_check tame_mark_inode p)
  have e: "validate_data_bitmap fx ok s = (isValid (?t fx ?s1), ?t fx ?s1)" for fx
    using ok by (simp add: validate_data_bitmap_def Let_def)
  show "validate_data_bitmap True ok s = validate_data_bitmap False ok s"
    and "findings (snd (validate_data_bitmap False ok s)) = findings s"
    and "fs_image (snd (validate_data_bitmap False ok s)) = fs_image s"
    using tameD[OF t, of ?s1] assms unfolding e by simp_all
qed

lemma quiet_validate_inode_bitmap:
  assumes "fst (validate_inode_bitmap False s)"
  shows "validate_inode_bitmap True s = validate_inode_bitmap False s"
    and "findings (snd (validate_inode_bitmap False s)) = findings s"
    and "fs_image (snd (validate_inode_bitmap False s)) = fs_image s"
  using assms tameD[OF tame_fold[of "ib_check True" "ib_check False", OF tame_ib_check],
      of "[0..<80]" "print (Banner Inode_bitmap) (s\<lparr>isValid := True\<rparr>)"]
  by (simp_all add: validate_inode_bitmap_def Let_def)

lemma quiet_check_duplicate_blocks:
  assumes "fst (check_duplicate_blocks False ok s)"
  shows "check_duplicate_blocks True ok s = check_duplicate_blocks False ok s"
    and "findings (snd (check_duplicate_blocks False ok s)) = findings s"
    and "fs_image (snd (check_duplicate_blocks False ok s)) = fs_image s"
proof -
  have ok: ok using assms by (auto simp: check_duplicate_blocks_def Let_def split: if_splits)
  let ?s1 = "print (Banner Duplicate_blocks) (s\<lparr>isValid := True\<rparr>)
       \<lparr>block_ref_count := (\<lambda>_. False), inode_refs := (\<lambda>_. 0)\<rparr>"
  have e: "check_duplicate_blocks fx ok s =
      (isValid (fold (dup_inode fx) [0..<80] ?s1), fold (dup_inode fx) [0..<80] ?s1)" for fx
    using ok by (simp add: check_duplicate_blocks_def Let_def)
  show "check_duplicate_blocks True ok s = check_duplicate_blocks False ok s"
    and "findings (snd (check_duplicate_blocks False ok s)) = findings s"
    and "fs_image (snd (check_duplicate_blocks False ok s)) = fs_image s"
    using tameD[OF tame_fold[of "dup_inode True" "dup_inode False", OF tame_dup_inode],
      of "[0..<80]" ?s1] assms unfolding e by simp_all
qed

lemma quiet_check_bad_blocks:
  assumes "fst (check_bad_blocks False s)"
  shows "check_bad_blocks True s = check_bad_blocks False s"
    and "findings (snd (check_bad_blocks False s)) = findings s"
    and "fs_image (snd (check_bad_blocks False s)) = fs_image s"
  using assms tameD[OF tame_fold[of "bad_inode True" "bad_inode False", OF tame_bad_inode],
      of "[0..<80]" "print (Banner Bad_blocks) (s\<lparr>isValid := True\<rparr>)"]
  by (simp_all add: check_bad_blocks_def Let_def)

lemma quiet_audit:
  assumes "all_valid (fst (audit False a b s))"
  shows "audit True a b s = audit False a b s"
    and "findings (snd (audit False a b s)) = findings s"
    and "fs_image (snd (audit False a b s)) = fs_image s"
proof -
  obtain v1 s1 where 1: "validate_superblock False s = (v1, s1)" by fastforce
  obtain v2 s2 where 2: "validate_data_bitmap False a s1 = (v2, s2)" by fastforce
  obtain v3 s3 where 3: "validate_inode_bitmap False s2 = (v3, s3)" by fastforce
  obtain v4 s4 where 4: "check_duplicate_blocks False b s3 = (v4, s4)" by fastforce
  obtain v5 s5 where 5: "check_bad_blocks False s4 = (v5, s5)" by fastforce
  have v: v1 v2 v3 v4 v5 using assms by (simp_all add: audit_def 1 2 3 4 5)
  note q1 = quiet_validate_superblock[of s] quiet_validate_data_bitmap[of a s1]
    quiet_validate_inode_bitmap[of s2] quiet_check_duplicate_blocks[of b s3]
    quiet_check_bad_blocks[of s4]
  show "audit True a b s = audit False a b s"
    using q1 v by (simp add: audit_def 1 2 3 4 5)
  show "findings (snd (audit False a b s)) = findings s"
    using q1 v by (simp add: audit_def 1 2 3 4 5)
  show "fs_image (snd (audit False a b s)) = fs_image s"
    using q1 v by (simp add: audit_def 1 2 3 4 5)
qed

lemma frame_sb_check: "fs_image (sb_check False f s) = fs_image s"
  by (simp add: sb_check_def Let_def)

lemma frame_mark_used: "fs_image (mark_used p s) = fs_image s"
  by (simp add: mark_used_def Let_def)

lemma frame_mark_inode: "fs_image (mark_inode i s) = fs_image s"
  by (simp add: mark_inode_def frame_mark_used)

lemma frame_db_check: "fs_image (db_check False i s) = fs_image s"
  by (simp add: db_check_def Let_def)

lemma frame_ib_check: "fs_image (ib_check False i s) = fs_image s"
  by (simp add: ib_check_def Let_def)

lemma frame_check_dup: "fs_image (snd (check_data_block_for_duplicates v i fix s)) = fs_image s"
  by (simp add: check_data_block_for_duplicates_def Let_def)

lemma frame_dup_leaf: "fs_image (dup_leaf False i base j s) = fs_image s"
  by (simp add: dup_leaf_def Let_def case_prod_beta frame_check_dup)

lemma frame_dup_node:
  assumes "\<And>b s. fs_image (descend b s) = fs_image s"
  shows "fs_image (dup_node descend False i base j s) = fs_image s"
  by (simp add: dup_node_def Let_def case_prod_beta frame_check_dup assms split: option.splits)

lemma frame_dup_entries: "fs_image (dup_entries d False i base s) = fs_image s"
proof (induction d arbitrary: base s)
  case 0
  show ?case by (simp add: fold_preserves[where g = fs_image, OF frame_dup_leaf])
next
  case (Suc d)
  show ?case by (simp add: fold_preserves[where g = fs_image, OF frame_dup_node] Suc)
qed

lemma frame_dup_pointer: "fs_image (dup_pointer sl False i s) = fs_image s"
  by (simp add: dup_pointer_def Let_def frame_dup_entries split: option.splits)

lemma frame_dup_inode: "fs_image (dup_inode False i s) = fs_image s"
  by (simp add: dup_inode_def frame_dup_pointer)

lemma frame_bad_leaf: "fs_image (bad_leaf False sl i base j s) = fs_image s"
  by (simp add: bad_leaf_def Let_def)

lemma frame_bad_node:
  assumes "\<And>b s. fs_image (descend b s) = fs_image s"
  shows "fs_image (bad_node descend False sl d i base j s) = fs_image s"
  by (simp add: bad_node_def Let_def assms split: option.splits)

lemma frame_bad_entries: "fs_image (bad_entries d False sl i base s) = fs_image s"
proof (induction d arbitrary: base s)
  case 0
  show ?case by (simp add: fold_preserves[where g = fs_image, OF frame_bad_leaf])
next
  case (Suc d)
  show ?case by (simp add: fold_preserves[where g = fs_image, OF frame_bad_node] Suc)
qed

lemma frame_bad_pointer: "fs_image (bad_pointer sl False i s) = fs_image s"
  by (simp add: bad_pointer_def Let_def frame_bad_entries split: option.splits)

lemma frame_bad_inode: "fs_image (bad_inode False i s) = fs_image s"
  by (simp add: bad_inode_def frame_bad_pointer)

lemma frame_validate_superblock: "fs_image (snd (validate_superblock False s)) = fs_image s"
  by (simp add: validate_superblock_def Let_def fold_preserves[where g = fs_image, OF frame_sb_check])

lemma frame_validate_data_bitmap: "fs_image (snd (validate_data_bitmap False ok s)) = fs_image s"
  by (simp add: validate_data_bitmap_def Let_def
      fold_preserves[where g = fs_image, OF frame_db_check]
      fold_preserves[where g = fs_image, OF frame_mark_inode])

lemma frame_validate_inode_bitmap: "fs_image (snd (validate_inode_bitmap False s)) = fs_image s"
  by (simp add: validate_inode_bitmap_def Let_def fold_preserves[where g = fs_image, OF frame_ib_check])

lemma frame_check_duplicate_blocks: "fs_image (snd (check_duplicate_blocks False ok s)) = fs_image s"
  by (simp add: check_duplicate_blocks_def Let_def fold_preserves[where g = fs_image, OF frame_dup_inode])

lemma frame_check_bad_blocks: "fs_image (snd (check_bad_blocks False s)) = fs_image s"
  by (simp add: check_bad_blocks_def Let_def fold_preserves[where g = fs_image, OF frame_bad_inode])

lemma frame_audit: "fs_image (snd (audit False a b s)) = fs_image s"
  by (simp add: audit_chain frame_check_bad_blocks frame_check_duplicate_blocks
      frame_validate_inode_bitmap frame_validate_data_bitmap frame_validate_superblock)

lemma findings_prints [simp]: "findings (prints ls s) = findings s @ filter is_finding ls"
  by (simp add: findings_def)

lemma clean_run:
  assumes "loads e f" "finds_nothing e f"
  shows "\<not> repairs e f"
    and "main e = \<lparr>exit_code = 0,
     console = printed (snd (first_round e f)) @ first_summary e f,
     buffer = Some (file_data f), fwrite_calls = [], disk_after = Some f\<rparr>"
    and "filter is_finding (console (main e)) = []"
proof -
  let ?s0 = "prints (greeting e) (loaded f)"
  let ?a = "pass_alloc_ok e 0" and ?b = "pass_alloc_ok e 1"
  have v: "all_valid (fst (audit False ?a ?b ?s0))" using assms(2) by (simp add: finds_nothing_def)
  have same: "audit (fix_requested e) ?a ?b ?s0 = audit False ?a ?b ?s0"
    using quiet_audit(1)[OF v] by (cases "fix_requested e") simp_all
  have fr: "first_round e f = audit False ?a ?b ?s0"
    by (simp only: first_round_def same)
  have "all_valid (fst (first_round e f))" using v by (simp only: fr)
  then show nr: "\<not> repairs e f" by (simp add: repairs_def)
  have img: "fs_image (snd (first_round e f)) = file_data f"
    by (simp add: fr frame_audit loaded_def)
  show m: "main e = \<lparr>exit_code = 0,
     console = printed (snd (first_round e f)) @ first_summary e f,
     buffer = Some (file_data f), fwrite_calls = [], disk_after = Some f\<rparr>"
    by (simp add: main_no_repair[OF assms(1) nr] img)
  have "findings (snd (first_round e f)) = []"
    using quiet_audit(2)[OF v] by (simp add: fr greeting_def loaded_def findings_def)
  moreover have "filter is_finding (first_summary e f) = []"
    by (cases "fst (first_round e f)") (simp add: first_summary_def)
  ultimately show "filter is_finding (console (main e)) = []"
    by (simp add: m findings_def)
qed

section \<open>Reading and writing the image\<close>

lemma write32_other: "c < a \<or> a + 4 \<le> c \<Longrightarrow> write32 m a v c = m c"
  by (auto simp: write32_def)

lemma read32_cong:
  assumes "m a = m' a" "m (a + 1) = m' (a + 1)" "m (a + 2) = m' (a + 2)" "m (a + 3) = m' (a + 3)"
  shows "read32 m a = read32 m' a"
  using assms by (simp add: read32_def)

lemma read32_write32_same: "read32 (write32 m a v) a = v"
proof (rule bit_word_eqI)
  fix n assume n: "n < LENGTH(32)"
  then consider "n < 8" | "8 \<le> n" "n < 16" | "16 \<le> n" "n < 24" | "24 \<le> n" "n < 32"
    by fastforce
  then show "bit (read32 (write32 m a v) a) n = bit v n"
  proof cases
    case 1 then show ?thesis by (simp add: read32_def write32_def bit_simps)
  next
    case 2 then show ?thesis by (auto simp add: read32_def write32_def bit_simps)
  next
    case 3 then show ?thesis by (auto simp add: read32_def write32_def bit_simps)
  next
    case 4 then show ?thesis by (auto simp add: read32_def write32_def bit_simps)
  qed
qed

lemma read32_write32_other:
  "a + 4 \<le> b \<or> b + 4 \<le> a \<Longrightarrow> read32 (write32 m a v) b = read32 m b"
  by (auto simp: read32_def write32_def)

lemma read32_upd_other: "c < b \<or> b + 4 \<le> c \<Longrightarrow> read32 (m(c := x)) b = read32 m b"
  by (auto simp: read32_def)

lemma read32_blank [simp]: "read32 blank a = 0"
  by (simp add: read32_def blank_def)

lemma aligned_apart:
  "4 dvd (a::nat) \<Longrightarrow> 4 dvd b \<Longrightarrow> a \<noteq> b \<Longrightarrow> a + 4 \<le> b \<or> b + 4 \<le> a"
  by (auto simp: dvd_def)

lemma read32_write32:
  "4 dvd a \<Longrightarrow> 4 dvd b \<Longrightarrow> read32 (write32 m a v) b = (if a = b then v else read32 m b)"
  using aligned_apart[of a b] by (auto simp: read32_write32_same read32_write32_other)

lemma read32_set_bit_other:
  "b + k div 8 < a \<or> a + 4 \<le> b + k div 8 \<Longrightarrow> read32 (set_bit_in m b k) a = read32 m a"
  by (simp add: set_bit_in_def Let_def read32_upd_other)

lemma read32_clear_bit_other:
  "b + k div 8 < a \<or> a + 4 \<le> b + k div 8 \<Longrightarrow> read32 (clear_bit m b k) a = read32 m a"
  by (simp add: clear_bit_def Let_def read32_upd_other)

section \<open>Bitmaps\<close>

lemma is_bit_set_iff: "is_bit_set m b n \<longleftrightarrow> bit (m (b + n div 8)) (n mod 8)"
  by (simp add: is_bit_set_def Let_def bit_iff_and_push_bit_not_eq_0)

lemma bit_index_eq: "(i div 8 = j div 8 \<and> i mod 8 = j mod 8) = (i = (j::nat))"
  by (metis div_mult_mod_eq)

lemma is_bit_set_set: "is_bit_set (set_bit_in m b i) b j \<longleftrightarrow> i = j \<or> is_bit_set m b j"
proof (cases "i div 8 = j div 8")
  case True
  then show ?thesis
    using bit_index_eq[of i j]
    by (auto simp: is_bit_set_iff set_bit_in_def Let_def bit_simps)
next
  case False
  then show ?thesis
    by (auto simp: is_bit_set_iff set_bit_in_def Let_def)
qed

lemma is_bit_set_clear: "is_bit_set (clear_bit m b i) b j \<longleftrightarrow> i \<noteq> j \<and> is_bit_set m b j"
proof (cases "i div 8 = j div 8")
  case True
  then show ?thesis
    using bit_index_eq[of i j]
    by (auto simp: is_bit_set_iff clear_bit_def Let_def bit_simps)
next
  case False
  then show ?thesis
    by (auto simp: is_bit_set_iff clear_bit_def Let_def)
qed

lemma is_bit_set_upd_other: "c \<noteq> b + k div 8 \<Longrightarrow> is_bit_set (m(c := x)) b k = is_bit_set m b k"
  by (simp add: is_bit_set_def Let_def)

lemma is_bit_set_write32_other:
  "b + k div 8 < a \<or> a + 4 \<le> b + k div 8 \<Longrightarrow> is_bit_set (write32 m a v) b k = is_bit_set m b k"
  by (simp add: is_bit_set_def Let_def write32_other)

lemma is_bit_set_set_other:
  "b' + i div 8 \<noteq> b + k div 8 \<Longrightarrow> is_bit_set (set_bit_in m b' i) b k = is_bit_set m b k"
  by (simp add: set_bit_in_def Let_def is_bit_set_upd_other)

lemma is_bit_set_clear_other:
  "b' + i div 8 \<noteq> b + k div 8 \<Longrightarrow> is_bit_set (clear_bit m b' i) b k = is_bit_set m b k"
  by (simp add: clear_bit_def Let_def is_bit_set_upd_other)

lemma is_bit_set_blank [simp]: "\<not> is_bit_set blank b k"
  by (simp add: is_bit_set_def blank_def)

section \<open>The inode table\<close>

lemma inode_at_eq:
  assumes "x < 212" "y < 212"
  shows "inode_at i + x = inode_at j + y \<longleftrightarrow> i = j \<and> x = y"
proof
  assume "inode_at i + x = inode_at j + y"
  then have e: "i * 212 + x = j * 212 + y" by (simp add: inode_at_def)
  have "(i * 212 + x) div 212 = i" "(j * 212 + y) div 212 = j"
    "(i * 212 + x) mod 212 = x" "(j * 212 + y) mod 212 = y"
    using assms by simp_all
  then show "i = j \<and> x = y" using e by metis
qed simp

lemma inode_at_aligned: "4 dvd inode_at i + x \<longleftrightarrow> 4 dvd x"
proof -
  have "inode_at i + x = 4 * (3072 + 53 * i) + x" by (simp add: inode_at_def)
  then show ?thesis by (metis dvd_add_right_iff dvd_triv_left)
qed

lemma inode_field_write:
  assumes "4 dvd x" "4 dvd y" "x < 212" "y < 212"
  shows "read32 (write32 m (inode_at j + y) v) (inode_at i + x) =
     (if i = j \<and> x = y then v else read32 m (inode_at i + x))"
  using assms by (simp add: read32_write32 inode_at_aligned inode_at_eq)

lemma slot_offset_facts [simp]:
  "4 dvd slot_offset sl" "slot_offset sl < 212" "slot_offset sl \<noteq> 28" "slot_offset sl \<noteq> 32"
  "slot_offset sl = slot_offset sl' \<longleftrightarrow> sl = sl'"
  by (cases sl; cases sl'; simp)+

lemma pointer_write_pointer:
  "pointer (write32 m (inode_at j + slot_offset sl') v) i sl =
     (if i = j \<and> sl = sl' then v else pointer m i sl)"
  by (simp add: pointer_def inode_field_write)

lemma links_count_write_pointer:
  "links_count (write32 m (inode_at j + slot_offset sl) v) i = links_count m i"
  using inode_field_write[of 32 "slot_offset sl" m j v i]
  by (simp add: links_count_def)

lemma dtime_write_pointer:
  "dtime (write32 m (inode_at j + slot_offset sl) v) i = dtime m i"
  using inode_field_write[of 28 "slot_offset sl" m j v i]
  by (simp add: dtime_def)

lemma is_inode_valid_write_pointer:
  "is_inode_valid (write32 m (inode_at j + slot_offset sl) v) i = is_inode_valid m i"
  by (simp add: is_inode_valid_def links_count_write_pointer dtime_write_pointer)

lemma sint_of_nat_small: "k < 2 ^ 31 \<Longrightarrow> sint (of_nat k :: u32) = int k"
proof -
  assume k: "k < 2 ^ 31"
  have "sint (of_nat k :: u32) = sint (word_of_int (int k) :: u32)" by simp
  also have "\<dots> = signed_take_bit 31 (int k)" by (simp only: sint_sbintrunc') simp
  also have "\<dots> = int k" using k by (intro signed_take_bit_int_eq_self) auto
  finally show ?thesis .
qed

lemma unat_of_nat_small: "k < 2 ^ 32 \<Longrightarrow> unat (of_nat k :: u32) = k"
  by (simp add: unat_of_nat)

lemma of_nat_small_neq0: "0 < k \<Longrightarrow> k < 2 ^ 32 \<Longrightarrow> (of_nat k :: u32) \<noteq> 0"
  using unat_of_nat_small[of k] by (metis unat_0_iff not_less_iff_gr_or_eq)

lemma block_idx_in_range:
  fixes p :: u32
  assumes "0 \<le> sint (p - 8)" "sint (p - 8) < 56"
  shows "p = of_nat (nat (sint (p - 8)) + 8)"
proof -
  have "of_nat (nat (sint (p - 8))) = (of_int (sint (p - 8)) :: u32)"
    using assms(1) by (metis of_int_of_nat_eq int_nat_eq)
  then have "of_nat (nat (sint (p - 8))) = p - 8"
    by simp
  then show ?thesis by simp
qed

lemma block_idx_of_nat:
  fixes p :: u32
  assumes "k < 56" "p = of_nat (k + 8)"
  shows "p \<noteq> 0" "sint (p - 8) = int k"
proof -
  show "p \<noteq> 0" using assms of_nat_small_neq0[of "k + 8"] by simp
  have "p - 8 = of_nat k" using assms by simp
  then show "sint (p - 8) = int k" using assms(1) sint_of_nat_small[of k] by simp
qed

lemma block_used_mark_used:
  "block_used (mark_used p s) k \<longleftrightarrow> block_used s k \<or> (k < 56 \<and> p = of_nat (k + 8))"
proof (cases "p \<noteq> 0 \<and> 0 \<le> sint (p - 8) \<and> sint (p - 8) < 56")
  case True
  then have p: "p = of_nat (nat (sint (p - 8)) + 8)" by (simp add: block_idx_in_range)
  show ?thesis
  proof (cases "nat (sint (p - 8)) = k")
    case k: True
    then show ?thesis using True p by (auto simp: mark_used_def Let_def)
  next
    case False
    have "p \<noteq> of_nat (k + 8)" if "k < 56"
      using block_idx_of_nat(2)[OF that, of p] False by auto
    then show ?thesis using True False by (auto simp: mark_used_def Let_def)
  qed
next
  case False
  have "p \<noteq> of_nat (k + 8)" if "k < 56"
    using block_idx_of_nat[OF that, of p] False that by auto
  then show ?thesis using False by (auto simp: mark_used_def Let_def)
qed

lemma block_used_mark_inode:
  "block_used (mark_inode i s) k \<longleftrightarrow> block_used s k \<or>
     (k < 56 \<and> is_inode_valid (fs_image s) i \<and>
      (\<exists>sl. pointer (fs_image s) i sl = of_nat (k + 8)))"
proof -
  have "(\<exists>sl. P sl) \<longleftrightarrow> P Direct \<or> P Single \<or> P Double \<or> P Triple" for P
    by (metis slot.exhaust)
  then show ?thesis
    by (auto simp add: mark_inode_def block_used_mark_used)
qed

lemma block_used_marking:
  "block_used (fold mark_inode [0..<n] s) k \<longleftrightarrow> block_used s k \<or>
     (k < 56 \<and> (\<exists>i<n. is_inode_valid (fs_image s) i \<and>
      (\<exists>sl. pointer (fs_image s) i sl = of_nat (k + 8))))"
proof (induction n)
  case 0
  show ?case by simp
next
  case (Suc n)
  have i: "fs_image (fold mark_inode [0..<n] s) = fs_image s"
    by (rule fold_preserves) (rule frame_mark_inode)
  show ?case
    by (simp add: block_used_mark_inode Suc i less_Suc_eq) blast
qed

lemma block_used_db_check [simp]: "block_used (db_check fix i s) = block_used s"
  by (simp add: db_check_def Let_def)

lemma bit_db_check:
  "is_bit_set (fs_image (db_check True i s)) data_bitmap j =
     (if j = i then block_used s i else is_bit_set (fs_image s) data_bitmap j)"
  by (auto simp add: db_check_def Let_def is_bit_set_set is_bit_set_clear)

lemma bits_db_checks:
  "is_bit_set (fs_image (fold (db_check True) [0..<n] s)) data_bitmap j =
     (if j < n then block_used s j else is_bit_set (fs_image s) data_bitmap j)"
proof (induction n)
  case 0
  show ?case by simp
next
  case (Suc n)
  have u: "block_used (fold (db_check True) [0..<n] s) = block_used s"
    by (rule fold_preserves) simp
  show ?case by (auto simp add: bit_db_check Suc u)
qed

lemma used_validate_data_bitmap:
  assumes "k < 56"
  shows "block_used (snd (validate_data_bitmap fix True s)) k = top_level_ref (fs_image s) k"
proof -
  have u: "block_used (fold (db_check fix) [0..<56] t) = block_used t" for t
    by (rule fold_preserves) simp
  show ?thesis
    using assms
    by (simp add: validate_data_bitmap_def Let_def u block_used_marking top_level_ref_def)
qed

lemma bits_validate_data_bitmap:
  assumes "k < 56"
  shows "is_bit_set (fs_image (snd (validate_data_bitmap True True s))) data_bitmap k
     = top_level_ref (fs_image s) k"
proof -
  have i: "fs_image (fold mark_inode [0..<80] t) = fs_image t" for t
    by (rule fold_preserves) (rule frame_mark_inode)
  show ?thesis
    using assms
    by (simp add: validate_data_bitmap_def Let_def bits_db_checks block_used_marking top_level_ref_def)
qed

lemma bit_ib_check:
  "is_bit_set (fs_image (ib_check True i s)) inode_bitmap j =
     (if j = i then is_inode_valid (fs_image s) i else is_bit_set (fs_image s) inode_bitmap j)"
  by (auto simp add: ib_check_def Let_def is_bit_set_set is_bit_set_clear)

lemma read16_write16_same: "read16 (write16 m a v) a = v"
proof (rule bit_word_eqI)
  fix n assume n: "n < LENGTH(16)"
  then consider "n < 8" | "8 \<le> n" "n < 16"
    by fastforce
  then show "bit (read16 (write16 m a v) a) n = bit v n"
  proof cases
    case 1 then show ?thesis by (simp add: read16_def write16_def bit_simps)
  next
    case 2 then show ?thesis by (auto simp add: read16_def write16_def bit_simps)
  qed
qed

lemma read16_write32_other: "a \<ge> b + 2 \<Longrightarrow> read16 (write32 m a v) b = read16 m b"
  by (simp add: read16_def write32_def)

lemma read32_write16_other: "b \<ge> a + 2 \<Longrightarrow> read32 (write16 m a v) b = read32 m b"
  by (simp add: read32_def write16_def)

lemma write16_other: "c \<ge> a + 2 \<Longrightarrow> write16 m a v c = m c"
  by (simp add: write16_def)

lemma sb_get_formatted: "sb_get formatted f = sb_expected f"
  by (cases f)
     (simp_all add: formatted_def sb_fields_def read16_write16_same read16_write32_other
        read32_write32_same read32_write32_other)

lemma formatted_beyond: "36 \<le> a \<Longrightarrow> formatted a = 0"
  by (simp add: formatted_def sb_fields_def write32_other write16_other blank_def)

lemma read32_formatted: "36 \<le> a \<Longrightarrow> read32 formatted a = 0"
  by (simp add: read32_def formatted_beyond)

lemma is_bit_set_formatted: "36 \<le> b \<Longrightarrow> \<not> is_bit_set formatted b k"
  by (simp add: is_bit_set_def Let_def formatted_beyond)

lemma inode_at_ge: "12288 \<le> inode_at i"
  by (simp add: inode_at_def)

lemma links_count_write_links:
  "links_count (write32 m (inode_at j + 32) v) i = (if i = j then v else links_count m i)"
  using inode_field_write[of 32 32 m j v i] by (simp add: links_count_def)

lemma dtime_write_links: "dtime (write32 m (inode_at j + 32) v) i = dtime m i"
  using inode_field_write[of 28 32 m j v i] by (simp add: dtime_def)

lemma pointer_write_links: "pointer (write32 m (inode_at j + 32) v) i sl = pointer m i sl"
  using inode_field_write[of "slot_offset sl" 32 m j v i] by (simp add: pointer_def)

lemma links_count_write_dtime: "links_count (write32 m (inode_at j + 28) v) i = links_count m i"
  using inode_field_write[of 32 28 m j v i] by (simp add: links_count_def)

lemma dtime_write_dtime:
  "dtime (write32 m (inode_at j + 28) v) i = (if i = j then v else dtime m i)"
  using inode_field_write[of 28 28 m j v i] by (simp add: dtime_def)

lemma pointer_write_dtime: "pointer (write32 m (inode_at j + 28) v) i sl = pointer m i sl"
  using inode_field_write[of "slot_offset sl" 28 m j v i] by (simp add: pointer_def)

text \<open>A change to a byte below the inode table leaves every inode as it was.\<close>

lemma inode_upd_below:
  assumes "c < 12288"
  shows "links_count (m(c := x)) i = links_count m i"
    and "dtime (m(c := x)) i = dtime m i"
    and "pointer (m(c := x)) i sl = pointer m i sl"
    and "is_inode_valid (m(c := x)) i = is_inode_valid m i"
proof -
  have "c < inode_at i + y" for y using assms inode_at_ge[of i] by simp
  then show "links_count (m(c := x)) i = links_count m i"
    and "dtime (m(c := x)) i = dtime m i"
    and "pointer (m(c := x)) i sl = pointer m i sl"
    by (simp_all add: links_count_def dtime_def pointer_def read32_upd_other)
  then show "is_inode_valid (m(c := x)) i = is_inode_valid m i"
    by (simp add: is_inode_valid_def)
qed

lemma inode_set_bit:
  assumes "b + k div 8 < 12288"
  shows "links_count (set_bit_in m b k) i = links_count m i"
    and "dtime (set_bit_in m b k) i = dtime m i"
    and "pointer (set_bit_in m b k) i sl = pointer m i sl"
    and "is_inode_valid (set_bit_in m b k) i = is_inode_valid m i"
  using assms by (simp_all add: set_bit_in_def Let_def inode_upd_below)

lemma inode_clear_bit:
  assumes "b + k div 8 < 12288"
  shows "links_count (clear_bit m b k) i = links_count m i"
    and "dtime (clear_bit m b k) i = dtime m i"
    and "pointer (clear_bit m b k) i sl = pointer m i sl"
    and "is_inode_valid (clear_bit m b k) i = is_inode_valid m i"
  using assms by (simp_all add: clear_bit_def Let_def inode_upd_below)

lemma inode_formatted:
  "links_count formatted i = 0" "dtime formatted i = 0" "pointer formatted i sl = 0"
  using inode_at_ge[of i]
  by (simp_all add: links_count_def dtime_def pointer_def read32_formatted)

text \<open>The superblock is untouched by a change at offset 36 or beyond.\<close>

lemma sb_get_upd_beyond: "36 \<le> c \<Longrightarrow> sb_get (m(c := x)) f = sb_get m f"
  by (cases f) (simp_all add: read16_def read32_def)

lemma sb_get_write32_beyond: "36 \<le> a \<Longrightarrow> sb_get (write32 m a v) f = sb_get m f"
  by (cases f) (simp_all add: read16_def read32_def write32_def)

lemma sb_get_set_bit_beyond: "36 \<le> b \<Longrightarrow> sb_get (set_bit_in m b k) f = sb_get m f"
  by (simp add: set_bit_in_def Let_def sb_get_upd_beyond)

text \<open>The bitmaps are untouched by a write into the inode table or beyond.\<close>

lemma bit_write32_above:
  assumes "b + k div 8 < a"
  shows "is_bit_set (write32 m a v) b k = is_bit_set m b k"
  using assms by (simp add: is_bit_set_write32_other)

lemma fold_noop:
  assumes "\<And>x. x \<in> set xs \<Longrightarrow> f x s = s"
  shows "fold f xs s = s"
  using assms by (induction xs) simp_all

lemma upt_80: "[0..<80] = 0 # [1..<80]"
  by (simp add: upt_conv_Cons)

lemma lone_file_s1: "lone_file s1_image True"
  unfolding lone_file_def
proof (intro conjI allI impI)
  fix f show "sb_get s1_image f = sb_expected f"
    by (simp add: s1_image_def sb_get_write32_beyond sb_get_set_bit_beyond sb_get_formatted inode_at_def)
next
  fix i show "is_inode_valid s1_image i = (i = 0)"
    by (simp add: s1_image_def is_inode_valid_def links_count_write_links dtime_write_links
        links_count_write_pointer[where sl = Direct, simplified]
        dtime_write_pointer[where sl = Direct, simplified]
        inode_set_bit inode_formatted)
next
  fix sl show "pointer s1_image 0 sl = (if sl = Direct then 8 else 0)"
    by (simp add: s1_image_def pointer_write_pointer[where sl' = Direct, simplified]
        pointer_write_links inode_set_bit inode_formatted)
next
  fix k :: nat assume "k < 56"
  then have "k div 8 < 7" by auto
  then show "is_bit_set s1_image data_bitmap k = (k = 0)"
    by (simp add: s1_image_def bit_write32_above is_bit_set_set inode_at_def
        is_bit_set_set_other is_bit_set_formatted)
next
  fix i :: nat assume "i < 80"
  then have "i div 8 < 10" by auto
  then show "is_bit_set s1_image inode_bitmap i = (i = 0 \<and> True)"
    by (simp add: s1_image_def bit_write32_above is_bit_set_set inode_at_def
        is_bit_set_set_other is_bit_set_formatted)
qed

lemma lone_file_s2: "lone_file s2_image False"
  unfolding lone_file_def
proof (intro conjI allI impI)
  fix f show "sb_get s2_image f = sb_expected f"
    by (simp add: s2_image_def sb_get_write32_beyond sb_get_set_bit_beyond sb_get_formatted inode_at_def)
next
  fix i show "is_inode_valid s2_image i = (i = 0)"
    by (simp add: s2_image_def is_inode_valid_def links_count_write_links dtime_write_links
        links_count_write_pointer[where sl = Direct, simplified]
        dtime_write_pointer[where sl = Direct, simplified]
        inode_set_bit inode_formatted)
next
  fix sl show "pointer s2_image 0 sl = (if sl = Direct then 8 else 0)"
    by (simp add: s2_image_def pointer_write_pointer[where sl' = Direct, simplified]
        pointer_write_links inode_set_bit inode_formatted)
next
  fix k :: nat assume "k < 56"
  then have "k div 8 < 7" by auto
  then show "is_bit_set s2_image data_bitmap k = (k = 0)"
    by (simp add: s2_image_def bit_write32_above is_bit_set_set inode_at_def
        is_bit_set_set_other is_bit_set_formatted)
next
  fix i :: nat assume "i < 80"
  then have "i div 8 < 10" by auto
  then show "is_bit_set s2_image inode_bitmap i = (i = 0 \<and> False)"
    by (simp add: s2_image_def bit_write32_above is_bit_set_set inode_at_def
        is_bit_set_set_other is_bit_set_formatted)
qed

lemma lone_file_mark:
  assumes "lone_file m False"
  shows "lone_file (set_bit_in m inode_bitmap 0) True"
  unfolding lone_file_def
proof (intro conjI allI impI)
  fix f show "sb_get (set_bit_in m inode_bitmap 0) f = sb_expected f"
    using assms by (simp add: sb_get_set_bit_beyond lone_file_def)
next
  fix i :: nat assume "i < 80"
  then show "is_inode_valid (set_bit_in m inode_bitmap 0) i = (i = 0)"
    using assms by (simp add: inode_set_bit lone_file_def)
next
  fix sl show "pointer (set_bit_in m inode_bitmap 0) 0 sl = (if sl = Direct then 8 else 0)"
    using assms by (simp add: inode_set_bit lone_file_def)
next
  fix k :: nat assume "k < 56"
  then show "is_bit_set (set_bit_in m inode_bitmap 0) data_bitmap k = (k = 0)"
    using assms by (simp add: is_bit_set_set_other lone_file_def)
next
  fix i :: nat assume "i < 80"
  then show "is_bit_set (set_bit_in m inode_bitmap 0) inode_bitmap i = (i = 0 \<and> True)"
    using assms by (auto simp add: is_bit_set_set lone_file_def)
qed

lemma fold_inv:
  assumes "P s" "\<And>x t. x \<in> set xs \<Longrightarrow> P t \<Longrightarrow> P (f x t)"
  shows "P (fold f xs s)"
  using assms by (induction xs arbitrary: s) simp_all

lemma sb_pass_ok:
  assumes "\<forall>f. sb_get (fs_image s) f = sb_expected f"
  shows "fst (validate_superblock fix s)"
    and "fs_image (snd (validate_superblock fix s)) = fs_image s"
proof -
  let ?P = "\<lambda>t. fs_image t = fs_image s \<and> isValid t"
  have "?P (fold (sb_check fix) sb_fields (print (Banner Superblock) (s\<lparr>isValid := True\<rparr>)))"
    by (rule fold_inv) (use assms in \<open>simp_all add: sb_check_def\<close>)
  then show "fst (validate_superblock fix s)"
    and "fs_image (snd (validate_superblock fix s)) = fs_image s"
    by (simp_all add: validate_superblock_def Let_def)
qed

lemma of_nat_eq_8: "k < 56 \<Longrightarrow> (of_nat (k + 8) :: u32) = 8 \<longleftrightarrow> k = 0"
proof
  assume k: "k < 56" and e: "(of_nat (k + 8) :: u32) = 8"
  have "unat (of_nat (k + 8) :: u32) = k + 8"
    by (rule unat_of_nat_small) (use k in simp)
  then show "k = 0" unfolding e by simp
qed simp

lemma top_level_ref_lone:
  assumes "lone_file m marked" "k < 56"
  shows "top_level_ref m k \<longleftrightarrow> k = 0"
proof
  assume "top_level_ref m k"
  then obtain i sl where i: "i < 80" "is_inode_valid m i" "pointer m i sl = of_nat (k + 8)"
    by (auto simp: top_level_ref_def)
  then have "i = 0" using assms(1) by (simp add: lone_file_def)
  then have "(of_nat (k + 8) :: u32) = 8 \<or> (of_nat (k + 8) :: u32) = 0"
    using i(3) assms(1) by (auto simp: lone_file_def split: if_splits)
  then show "k = 0"
    using of_nat_eq_8[OF assms(2)] of_nat_small_neq0[of "k + 8"] assms(2) by auto
next
  assume "k = 0"
  then show "top_level_ref m k"
    using assms(1) by (auto simp: top_level_ref_def lone_file_def intro!: exI[of _ 0] exI[of _ Direct])
qed

lemma db_check_noop:
  "block_used s k = is_bit_set (fs_image s) data_bitmap k \<Longrightarrow> db_check fix k s = s"
  by (simp add: db_check_def Let_def)

lemma isValid_mark_used: "isValid (mark_used p s) = isValid s"
  by (simp add: mark_used_def Let_def)

lemma isValid_mark_inode: "isValid (mark_inode i s) = isValid s"
  by (simp add: mark_inode_def isValid_mark_used)

lemma db_pass_ok:
  assumes "lone_file (fs_image s) marked"
  shows "fst (validate_data_bitmap fix True s)"
    and "fs_image (snd (validate_data_bitmap fix True s)) = fs_image s"
proof -
  let ?s1 = "print Db_checking (print (Banner Data_bitmap) (s\<lparr>isValid := True\<rparr>)\<lparr>block_used := (\<lambda>_. False)\<rparr>)"
  let ?s3 = "print Db_validating (fold mark_inode [0..<80] ?s1)"
  have i3: "fs_image ?s3 = fs_image s"
    by (simp add: fold_preserves[where g = fs_image, OF frame_mark_inode])
  have v3: "isValid ?s3"
    by (simp add: fold_preserves[where g = isValid, OF isValid_mark_inode])
  have u3: "block_used ?s3 k = (k = 0)" if "k < 56" for k
    using top_level_ref_lone[OF assms that] that
    by (simp add: block_used_marking top_level_ref_def)
  have "fold (db_check fix) [0..<56] ?s3 = ?s3"
  proof (rule fold_noop)
    fix k assume "k \<in> set [0..<56]"
    then have k: "k < 56" by simp
    have "is_bit_set (fs_image ?s3) data_bitmap k = (k = 0)"
      using assms k unfolding i3 by (simp add: lone_file_def)
    then show "db_check fix k ?s3 = ?s3"
      using u3[OF k] by (intro db_check_noop) simp
  qed
  then have e: "validate_data_bitmap fix True s = (isValid ?s3, ?s3)"
    by (simp add: validate_data_bitmap_def Let_def)
  show "fst (validate_data_bitmap fix True s)" unfolding e using v3 by simp
  show "fs_image (snd (validate_data_bitmap fix True s)) = fs_image s" unfolding e using i3 by simp
qed

lemma ib_check_noop:
  "is_inode_valid (fs_image s) i = is_bit_set (fs_image s) inode_bitmap i \<Longrightarrow> ib_check fix i s = s"
  by (simp add: ib_check_def Let_def)

lemma ib_pass_ok:
  assumes "lone_file (fs_image s) True"
  shows "fst (validate_inode_bitmap fix s)"
    and "fs_image (snd (validate_inode_bitmap fix s)) = fs_image s"
proof -
  let ?s0 = "print (Banner Inode_bitmap) (s\<lparr>isValid := True\<rparr>)"
  have "fold (ib_check fix) [0..<80] ?s0 = ?s0"
  proof (rule fold_noop)
    fix i assume "i \<in> set [0..<80]"
    then show "ib_check fix i ?s0 = ?s0"
      using assms by (intro ib_check_noop) (simp add: lone_file_def)
  qed
  then have e: "validate_inode_bitmap fix s = (True, ?s0)"
    by (simp add: validate_inode_bitmap_def Let_def)
  show "fst (validate_inode_bitmap fix s)" unfolding e by simp
  show "fs_image (snd (validate_inode_bitmap fix s)) = fs_image s" unfolding e by simp
qed

lemma ib_pass_stale:
  assumes "lone_file (fs_image s) False"
  shows "\<not> fst (validate_inode_bitmap fix s)"
    and "fs_image (snd (validate_inode_bitmap fix s)) =
           (if fix then set_bit_in (fs_image s) inode_bitmap 0 else fs_image s)"
    and "findings (snd (validate_inode_bitmap fix s)) = findings s @ [Error (Ib_unmarked 0)]"
proof -
  let ?s0 = "print (Banner Inode_bitmap) (s\<lparr>isValid := True\<rparr>)"
  let ?t = "print (Error (Ib_unmarked 0)) ?s0"
  let ?s1 = "invalid (if fix then (print (Fixing (Ib_fix_mark 0)) ?t)
               \<lparr>fs_image := set_bit_in (fs_image s) inode_bitmap 0\<rparr> else ?t)"
  have live0: "is_inode_valid (fs_image s) 0" and bit0: "\<not> is_bit_set (fs_image s) inode_bitmap 0"
    using assms by (simp_all add: lone_file_def)
  have 1: "ib_check fix 0 ?s0 = ?s1"
    using live0 bit0 by (simp add: ib_check_def Let_def)
  have l1: "lone_file (fs_image ?s1) fix"
    using assms lone_file_mark[OF assms] by (cases "fix") simp_all
  have "fold (ib_check fix) [1..<80] ?s1 = ?s1"
  proof (rule fold_noop)
    fix i assume "i \<in> set [1..<80]"
    then have "0 < i" "i < 80" by simp_all
    then show "ib_check fix i ?s1 = ?s1"
      using l1 by (intro ib_check_noop) (simp add: lone_file_def)
  qed
  then have e: "validate_inode_bitmap fix s = (False, ?s1)"
    using 1 by (simp add: validate_inode_bitmap_def Let_def upt_80)
  show "\<not> fst (validate_inode_bitmap fix s)" unfolding e by simp
  show "fs_image (snd (validate_inode_bitmap fix s)) =
           (if fix then set_bit_in (fs_image s) inode_bitmap 0 else fs_image s)"
    unfolding e by simp
  show "findings (snd (validate_inode_bitmap fix s)) = findings s @ [Error (Ib_unmarked 0)]"
    unfolding e by (simp add: findings_def)
qed

lemma dup_inode_dead: "\<not> is_inode_valid (fs_image s) i \<Longrightarrow> dup_inode fix i s = s"
  by (simp add: dup_inode_def)

lemma bad_inode_dead: "\<not> is_inode_valid (fs_image s) i \<Longrightarrow> bad_inode fix i s = s"
  by (simp add: bad_inode_def)

lemma dup_pass_ok:
  assumes "lone_file (fs_image s) marked"
  shows "fst (check_duplicate_blocks fix True s)"
    and "fs_image (snd (check_duplicate_blocks fix True s)) = fs_image s"
proof -
  let ?s0 = "print (Banner Duplicate_blocks) (s\<lparr>isValid := True\<rparr>)
       \<lparr>block_ref_count := (\<lambda>_. False), inode_refs := (\<lambda>_. 0)\<rparr>"
  let ?s1 = "print (Banner Duplicate_blocks) (s\<lparr>isValid := True\<rparr>)
       \<lparr>block_ref_count := (\<lambda>_. False)(8 := True), inode_refs := (\<lambda>_. 0)(8 := 0)\<rparr>"
  have p: "pointer (fs_image s) 0 sl = (if sl = Direct then 8 else 0)" for sl
    using assms by (simp add: lone_file_def)
  have live0: "is_inode_valid (fs_image s) 0" using assms by (simp add: lone_file_def)
  have d: "dup_pointer Direct fix 0 ?s0 = ?s1"
    by (simp add: dup_pointer_def Let_def p)
  have o: "dup_pointer sl fix 0 ?s1 = ?s1" if "sl \<noteq> Direct" for sl
    using that by (simp add: dup_pointer_def Let_def p)
  have 1: "dup_inode fix 0 ?s0 = ?s1"
    using live0 by (simp add: dup_inode_def d o)
  have "fold (dup_inode fix) [1..<80] ?s1 = ?s1"
  proof (rule fold_noop)
    fix i assume "i \<in> set [1..<80]"
    then have "0 < i" "i < 80" by simp_all
    then show "dup_inode fix i ?s1 = ?s1"
      using assms by (intro dup_inode_dead) (simp add: lone_file_def)
  qed
  then have e: "check_duplicate_blocks fix True s = (True, ?s1)"
    using 1 by (simp add: check_duplicate_blocks_def Let_def upt_80)
  show "fst (check_duplicate_blocks fix True s)" unfolding e by simp
  show "fs_image (snd (check_duplicate_blocks fix True s)) = fs_image s" unfolding e by simp
qed

lemma bad_pass_ok:
  assumes "lone_file (fs_image s) marked"
  shows "fst (check_bad_blocks fix s)"
    and "fs_image (snd (check_bad_blocks fix s)) = fs_image s"
proof -
  let ?s0 = "print (Banner Bad_blocks) (s\<lparr>isValid := True\<rparr>)"
  have p: "pointer (fs_image s) 0 sl = (if sl = Direct then 8 else 0)" for sl
    using assms by (simp add: lone_file_def)
  have o: "bad_pointer sl fix 0 ?s0 = ?s0" for sl
    by (simp add: bad_pointer_def Let_def p)
  have "fold (bad_inode fix) [0..<80] ?s0 = ?s0"
  proof (rule fold_noop)
    fix i assume "i \<in> set [0..<80]"
    then have i: "i < 80" by simp
    show "bad_inode fix i ?s0 = ?s0"
    proof (cases "i = 0")
      case True
      then show ?thesis by (simp add: bad_inode_def o)
    next
      case False
      then show ?thesis using assms i by (intro bad_inode_dead) (simp add: lone_file_def)
    qed
  qed
  then have e: "check_bad_blocks fix s = (True, ?s0)"
    by (simp add: check_bad_blocks_def Let_def)
  show "fst (check_bad_blocks fix s)" unfolding e by simp
  show "fs_image (snd (check_bad_blocks fix s)) = fs_image s" unfolding e by simp
qed

lemma audit_lone_ok:
  assumes "lone_file (fs_image s) True"
  shows "all_valid (fst (audit fix True True s))"
    and "fs_image (snd (audit fix True True s)) = fs_image s"
proof -
  obtain v1 s1 where 1: "validate_superblock fix s = (v1, s1)" by fastforce
  obtain v2 s2 where 2: "validate_data_bitmap fix True s1 = (v2, s2)" by fastforce
  obtain v3 s3 where 3: "validate_inode_bitmap fix s2 = (v3, s3)" by fastforce
  obtain v4 s4 where 4: "check_duplicate_blocks fix True s3 = (v4, s4)" by fastforce
  obtain v5 s5 where 5: "check_bad_blocks fix s4 = (v5, s5)" by fastforce
  have sb: "\<forall>f. sb_get (fs_image s) f = sb_expected f" using assms by (simp add: lone_file_def)
  have a1: "v1" "fs_image s1 = fs_image s" using sb_pass_ok[OF sb, of "fix"] 1 by simp_all
  have a2: "v2" "fs_image s2 = fs_image s"
    using db_pass_ok[of s1 True "fix"] assms 2 a1 by simp_all
  have a3: "v3" "fs_image s3 = fs_image s"
    using ib_pass_ok[of s2 "fix"] assms 3 a2 by simp_all
  have a4: "v4" "fs_image s4 = fs_image s"
    using dup_pass_ok[of s3 True "fix"] assms 4 a3 by simp_all
  have a5: "v5" "fs_image s5 = fs_image s"
    using bad_pass_ok[of s4 True "fix"] assms 5 a4 by simp_all
  show "all_valid (fst (audit fix True True s))"
    using a1 a2 a3 a4 a5 by (simp add: audit_def 1 2 3 4 5)
  show "fs_image (snd (audit fix True True s)) = fs_image s"
    using a5 by (simp add: audit_def 1 2 3 4 5)
qed

lemma audit_lone_stale:
  assumes "lone_file (fs_image s) False"
  shows "\<not> all_valid (fst (audit fix True True s))"
    and "fs_image (snd (audit fix True True s)) =
       (if fix then set_bit_in (fs_image s) inode_bitmap 0 else fs_image s)"
proof -
  obtain v1 s1 where 1: "validate_superblock fix s = (v1, s1)" by fastforce
  obtain v2 s2 where 2: "validate_data_bitmap fix True s1 = (v2, s2)" by fastforce
  obtain v3 s3 where 3: "validate_inode_bitmap fix s2 = (v3, s3)" by fastforce
  obtain v4 s4 where 4: "check_duplicate_blocks fix True s3 = (v4, s4)" by fastforce
  obtain v5 s5 where 5: "check_bad_blocks fix s4 = (v5, s5)" by fastforce
  let ?m = "if fix then set_bit_in (fs_image s) inode_bitmap 0 else fs_image s"
  have sb: "\<forall>f. sb_get (fs_image s) f = sb_expected f" using assms by (simp add: lone_file_def)
  have a1: "fs_image s1 = fs_image s" using sb_pass_ok[OF sb, of "fix"] 1 by simp_all
  have a2: "fs_image s2 = fs_image s"
    using db_pass_ok[of s1 False "fix"] assms 2 a1 by simp_all
  have a3: "\<not> v3" "fs_image s3 = ?m"
    using ib_pass_stale[of s2 "fix"] assms 3 a2 by simp_all
  have l3: "lone_file (fs_image s3) fix"
    using assms lone_file_mark[OF assms] a3 by (cases "fix") simp_all
  have a4: "fs_image s4 = ?m"
    using dup_pass_ok[of s3 "fix" "fix"] l3 4 a3 by simp
  have a5: "fs_image s5 = ?m"
    using bad_pass_ok[of s4 "fix" "fix"] l3 5 a4 a3 by simp
  show "\<not> all_valid (fst (audit fix True True s))"
    using a3 by (simp add: audit_def 1 2 3 4 5)
  show "fs_image (snd (audit fix True True s)) = ?m"
    using a5 by (simp add: audit_def 1 2 3 4 5)
qed

lemma loads_image_of: "length args = 2 \<or> length args = 3 \<Longrightarrow> loads (env_of args m) (image_of m)"
  using loads_env_of by (simp add: image_of_def)

lemma fix_requested_env_of [simp]:
  "fix_requested (env_of with_fix m)" "\<not> fix_requested (env_of check_only m)"
  by (simp_all add: fix_requested_def env_of_def with_fix_def check_only_def)

lemma pass_alloc_env_of [simp]: "pass_alloc_ok (env_of args m) k"
  by (simp add: env_of_def)

lemma finds_nothing_lone:
  assumes "lone_file m True"
  shows "finds_nothing (env_of args m) (image_of m)"
  using audit_lone_ok(1)[of "prints (greeting (env_of args m)) (loaded (image_of m))" False] assms
  by (simp add: finds_nothing_def loaded_def image_of_def)

lemma stale_run:
  assumes "lone_file m False"
  shows "repairs (env_of with_fix m) (image_of m)"
    and "fs_image (snd (second_round (env_of with_fix m) (image_of m))) = set_bit_in m inode_bitmap 0"
    and "all_valid (fst (second_round (env_of with_fix m) (image_of m)))"
proof -
  let ?e = "env_of with_fix m" and ?f = "image_of m"
  let ?s0 = "prints (greeting ?e) (loaded ?f)"
  have i0: "fs_image ?s0 = m" by (simp add: loaded_def image_of_def)
  have fr: "first_round ?e ?f = audit True True True ?s0"
    by (simp add: first_round_def)
  show "repairs ?e ?f"
    using audit_lone_stale(1)[of ?s0 True] assms i0 by (simp add: repairs_def fr)
  have i1: "fs_image (snd (first_round ?e ?f)) = set_bit_in m inode_bitmap 0"
    using audit_lone_stale(2)[of ?s0 True] assms i0 by (simp add: fr)
  let ?s2 = "print (Report Recheck_header) (prints (first_summary ?e ?f) (snd (first_round ?e ?f)))"
  have sr: "second_round ?e ?f = audit False True True ?s2"
    by (simp add: second_round_def)
  have l2: "lone_file (fs_image ?s2) True"
    using lone_file_mark[OF assms] i1 by simp
  show "fs_image (snd (second_round ?e ?f)) = set_bit_in m inode_bitmap 0"
    using audit_lone_ok(2)[OF l2, of False] i1 by (simp add: sr)
  show "all_valid (fst (second_round ?e ?f))"
    using audit_lone_ok(1)[OF l2, of False] by (simp add: sr)
qed

lemma top_level_ref_cong:
  assumes "\<forall>a. inode_table \<le> a \<and> a < DATA_BLOCK_START_NUM * BLOCK_SIZE \<longrightarrow> m' a = m a"
  shows "top_level_ref m' k = top_level_ref m k"
proof -
  have r: "read32 m' (inode_at i + x) = read32 m (inode_at i + x)" if "i < 80" "x + 4 \<le> 212" for i x
  proof (rule read32_cong)
    have "inode_at i + x + 3 < 32768" "12288 \<le> inode_at i + x"
      using that by (simp_all add: inode_at_def)
    then show "m' (inode_at i + x) = m (inode_at i + x)"
      "m' (inode_at i + x + 1) = m (inode_at i + x + 1)"
      "m' (inode_at i + x + 2) = m (inode_at i + x + 2)"
      "m' (inode_at i + x + 3) = m (inode_at i + x + 3)"
      using assms by simp_all
  qed
  have "is_inode_valid m' i = is_inode_valid m i" "pointer m' i sl = pointer m i sl"
    if "i < 80" for i sl
    using r[OF that, of 32] r[OF that, of 28] r[OF that, of "slot_offset sl"]
    by (cases sl; simp add: is_inode_valid_def links_count_def dtime_def pointer_def)+
  then show ?thesis by (simp add: top_level_ref_def cong: conj_cong)
qed

lemma main_not_loaded:
  assumes "\<forall>g. \<not> loads e g"
  shows "\<exists>why. main e = failed e why"
proof (cases "length (argv e) < 2 \<or> length (argv e) > 3")
  case True
  then have "main e = failed e Usage" by (simp add: main_def)
  then show ?thesis by blast
next
  case args: False
  show ?thesis
  proof (cases "disk e")
    case None
    then have "main e = failed e Perror_open" using args by (simp add: main_def)
    then show ?thesis by blast
  next
    case (Some g)
    then have "\<not> loads e g" using assms by simp
    then have "file_size g \<noteq> 262144 \<or> \<not> malloc_ok e \<or> fread_count e \<noteq> file_size g
        \<or> \<not> calloc_ok e"
      using args Some by (auto simp: loads_def)
    then consider "file_size g \<noteq> 262144"
      | "file_size g = 262144" "\<not> malloc_ok e"
      | "file_size g = 262144" "malloc_ok e" "fread_count e \<noteq> file_size g"
      | "file_size g = 262144" "malloc_ok e" "fread_count e = file_size g" "\<not> calloc_ok e"
      by blast
    then show ?thesis
    proof cases
      case 1
      then have "main e = failed e (Size_mismatch (file_size g))"
        using args Some by (simp add: main_def)
      then show ?thesis by blast
    next
      case 2
      then have "main e = failed e Perror_malloc" using args Some by (simp add: main_def)
      then show ?thesis by blast
    next
      case 3
      then have "main e = failed e Perror_read" using args Some by (simp add: main_def)
      then show ?thesis by blast
    next
      case 4
      then have "main e = failed e Perror_calloc" using args Some by (simp add: main_def)
      then show ?thesis by blast
    qed
  qed
qed

lemma inode_at_1: "inode_at 1 = 12500"
  by (simp add: inode_at_def)

lemma second_file_inode:
  "is_inode_valid second_file 1" "pointer second_file 1 Direct = 10"
  by (simp_all add: second_file_def is_inode_valid_def links_count_write_links dtime_write_links
        links_count_write_pointer[where sl = Direct, simplified]
        dtime_write_pointer[where sl = Direct, simplified]
        pointer_write_pointer[where sl' = Direct, simplified]
        inode_formatted)

lemma second_file_bit: "\<not> is_bit_set second_file data_bitmap 2"
  by (simp add: second_file_def bit_write32_above is_bit_set_formatted inode_at_def)

lemma top_level_ref_second_file: "top_level_ref second_file 2"
  unfolding top_level_ref_def
  using second_file_inode(1,2) by (intro exI[of _ 1] conjI exI[of _ Direct]) simp_all



text \<open>
  C9.  When the five passes, run without repairing on the image as loaded, all
  return true, a repairing run reports no finding, ends with the buffer equal
  to the bytes read, never calls \<^verbatim>\<open>fwrite\<close> and leaves the file as it was.
\<close>

theorem consistent_image_untouched:
  assumes "loads e f" "fix_requested e" "finds_nothing e f"
  shows "filter is_finding (console (main e)) = []
     \<and> buffer (main e) = Some (file_data f)
     \<and> fwrite_calls (main e) = []
     \<and> disk_after (main e) = Some f"
  using clean_run(2,3)[OF assms(1,3)] by simp

theorem consistent_image_untouched_witness:
  "loads (env_of with_fix s1_image) (image_of s1_image)
   \<and> fix_requested (env_of with_fix s1_image)
   \<and> finds_nothing (env_of with_fix s1_image) (image_of s1_image)
   \<and> filter is_finding (console (main (env_of with_fix s1_image))) = []
   \<and> buffer (main (env_of with_fix s1_image)) = Some s1_image
   \<and> fwrite_calls (main (env_of with_fix s1_image)) = []
   \<and> disk_after (main (env_of with_fix s1_image)) = Some (image_of s1_image)"
proof -
  have l: "loads (env_of with_fix s1_image) (image_of s1_image)"
    by (rule loads_image_of) (simp add: with_fix_def)
  have n: "finds_nothing (env_of with_fix s1_image) (image_of s1_image)"
    by (rule finds_nothing_lone) (rule lone_file_s1)
  show ?thesis
    using consistent_image_untouched[OF l _ n] l n
    by (simp add: image_of_def)
qed

text \<open>
  C3 (as amended).  A run that loads the image calls \<^verbatim>\<open>fwrite\<close> exactly when
  it was asked to repair and at least one of the first five calls returned
  false, be it for an inconsistency or because the pass could not allocate its
  table: then \<^verbatim>\<open>fwrite\<close> is called once, after the second five calls, with the
  buffer as the repairing passes left it.  A repairing run whose first five
  calls all return true, a check-only run and a run that fails to load the
  image never call \<^verbatim>\<open>fwrite\<close>.
\<close>

theorem write_back_once_after_repairs:
  "(loads e f \<longrightarrow>
      fwrite_calls (main e) =
        (if fix_requested e \<and> \<not> all_valid (fst (first_round e f))
         then [fs_image (snd (first_round e f))] else []))
   \<and> ((\<forall>g. \<not> loads e g) \<longrightarrow> fwrite_calls (main e) = [])"
proof (intro conjI impI)
  assume l: "loads e f"
  show "fwrite_calls (main e) =
        (if fix_requested e \<and> \<not> all_valid (fst (first_round e f))
         then [fs_image (snd (first_round e f))] else [])"
  proof (cases "repairs e f")
    case True
    have "fs_image (snd (second_round e f)) = fs_image (snd (first_round e f))"
      by (simp add: second_round_def frame_audit)
    then show ?thesis
      using main_repair(3)[OF l True] True by (simp add: repairs_def)
  next
    case False
    then show ?thesis
      using main_no_repair[OF l False] by (simp add: repairs_def)
  qed
next
  assume n: "\<forall>g. \<not> loads e g"
  show "fwrite_calls (main e) = []"
    using main_not_loaded[OF n] by (auto simp: failed_def)
qed

theorem write_back_once_after_repairs_witness:
  "loads (env_of with_fix s2_image) (image_of s2_image)
   \<and> fwrite_calls (main (env_of with_fix s2_image)) = [set_bit_in s2_image inode_bitmap 0]"
proof -
  let ?e = "env_of with_fix s2_image" and ?f = "image_of s2_image"
  have l: "loads ?e ?f"
    by (rule loads_image_of) (simp add: with_fix_def)
  have r: "repairs ?e ?f" by (rule stale_run(1)[OF lone_file_s2])
  have "fs_image (snd (second_round ?e ?f)) = fs_image (snd (first_round ?e ?f))"
    by (simp add: second_round_def frame_audit)
  then have i: "fs_image (snd (first_round ?e ?f)) = set_bit_in s2_image inode_bitmap 0"
    using stale_run(2)[OF lone_file_s2] by simp
  show ?thesis
    using write_back_once_after_repairs[of ?e ?f] l r i
    by (simp add: repairs_def)
qed

text \<open>
  In repair mode the file is not written for every input: the consistent
  image of scenario S1 is repaired without a single \<^verbatim>\<open>fwrite\<close>.
\<close>

theorem write_back_counterexample:
  "fix_requested (env_of with_fix s1_image)
   \<and> fwrite_calls (main (env_of with_fix s1_image)) = []"
proof -
  have l: "loads (env_of with_fix s1_image) (image_of s1_image)"
    by (rule loads_image_of) (simp add: with_fix_def)
  have n: "finds_nothing (env_of with_fix s1_image) (image_of s1_image)"
    by (rule finds_nothing_lone) (rule lone_file_s1)
  show ?thesis
    using clean_run(2)[OF l n] by simp
qed

lemma main_repair_console:
  assumes "loads e f" "repairs e f"
  shows "console (main e) = printed (snd (second_round e f))
     @ (Report Post_summary_header # summary Post_summary (fst (second_round e f))
        @ [Report (Post_overall (all_valid (fst (second_round e f))))])
     @ (if \<not> all_valid (fst (second_round e f)) then [Report Warning, Report Advice] else [])
     @ (if int (fwrite_count e) \<noteq> file_size f then [Stderr Perror_write] else [])"
proof -
  have fx: "fix_requested e"
    using assms(2) by (simp add: repairs_def)
  have r: "\<not> all_valid (fst (first_round e f))"
    using assms(2) by (simp add: repairs_def)
  have m: "main e = (let s3 = snd (second_round e f);
      s4 = prints (Report Post_summary_header # summary Post_summary (fst (second_round e f))
                 @ [Report (Post_overall (all_valid (fst (second_round e f))))]) s3;
      s5 = (if \<not> all_valid (fst (second_round e f))
              then prints [Report Warning, Report Advice] s4 else s4);
      s6 = (if int (fwrite_count e) \<noteq> file_size f
              then print (Stderr Perror_write) s5 else s5)
      in \<lparr>exit_code = 0, console = printed s6, buffer = Some (fs_image s6),
           fwrite_calls = [fs_image s5],
           disk_after = Some \<lparr>file_size = file_size f, file_data =
              (\<lambda>a. if a < fwrite_count e then fs_image s5 a else file_data f a)\<rparr>\<rparr>)"
    using assms(1) r fx
    by (simp add: main_def loads_def first_round_def first_summary_def greeting_def
      second_round_def Let_def case_prod_beta)
  show ?thesis by (simp add: m Let_def)
qed

lemma or_1_xor:
  fixes w :: byte
  assumes "\<not> bit w 0"
  shows "(w OR 1) XOR w = 1"
proof (rule bit_word_eqI)
  fix n assume "n < LENGTH(8)"
  show "bit ((w OR 1) XOR w) n = bit (1::byte) n"
    using assms by (cases "n = 0") (auto simp: bit_simps)
qed

lemma stale_run_outcome:
  assumes "lone_file m False"
  shows "exit_code (main (env_of with_fix m)) = 0"
    and "buffer (main (env_of with_fix m)) = Some (m(inode_bitmap := m inode_bitmap OR 1))"
    and "disk_after (main (env_of with_fix m))
           = Some (image_of (m(inode_bitmap := m inode_bitmap OR 1)))"
    and "(m inode_bitmap OR 1) XOR m inode_bitmap = 1"
    and "Report (Post_overall True) \<in> set (console (main (env_of with_fix m)))"
proof -
  let ?e = "env_of with_fix m" and ?f = "image_of m"
  have l: "loads ?e ?f" by (rule loads_image_of) (simp add: with_fix_def)
  note s = stale_run[OF assms]
  have sb: "set_bit_in m inode_bitmap 0 = m(inode_bitmap := m inode_bitmap OR 1)"
    by (simp add: set_bit_in_def)
  show "exit_code (main ?e) = 0" by (rule main_repair(1)[OF l s(1)])
  show "buffer (main ?e) = Some (m(inode_bitmap := m inode_bitmap OR 1))"
    using main_repair(2)[OF l s(1)] s(2) sb by simp
  have img: "fs_image (snd (second_round ?e ?f)) = m(inode_bitmap := m inode_bitmap OR 1)"
    using s(2) sb by simp
  have lam: "(\<lambda>a. if a < fwrite_count ?e then (m(inode_bitmap := m inode_bitmap OR 1)) a
                  else file_data ?f a)
      = m(inode_bitmap := m inode_bitmap OR 1)"
    by (rule ext) (simp add: env_of_def image_of_def)
  have d: "disk_after (main ?e) = Some \<lparr>file_size = file_size ?f, file_data =
           (\<lambda>a. if a < fwrite_count ?e then (m(inode_bitmap := m inode_bitmap OR 1)) a
                 else file_data ?f a)\<rparr>"
    using main_repair(4)[OF l s(1)] unfolding img .
  show "disk_after (main ?e) = Some (image_of (m(inode_bitmap := m inode_bitmap OR 1)))"
    unfolding d lam by (simp add: image_of_def)
  have "\<not> is_bit_set m inode_bitmap 0" using assms by (simp add: lone_file_def)
  then have "\<not> bit (m inode_bitmap) 0" by (simp add: is_bit_set_iff)
  then show "(m inode_bitmap OR 1) XOR m inode_bitmap = 1" by (rule or_1_xor)
  show "Report (Post_overall True) \<in> set (console (main ?e))"
    using s(3) by (simp add: main_repair_console[OF l s(1)])
qed

text \<open>
  C8 (as amended).  Scenario S2: a valid superblock, inode 0 the only live
  inode, with block 8 as its direct block and nothing else, bit 0 of the data
  bitmap set, and the inode bitmap clear.  A repairing run sets bit 0 of the
  inode bitmap, the re-audit reports a consistent image, and both the buffer and
  the file written back differ from the input in exactly one bit: bit 0 of
  byte 4096, the first byte of the inode bitmap (block 1).
\<close>

theorem stale_bitmap_scenario:
  assumes "lone_file m False"
  shows "exit_code (main (env_of with_fix m)) = 0
     \<and> buffer (main (env_of with_fix m)) = Some (m(inode_bitmap := m inode_bitmap OR 1))
     \<and> disk_after (main (env_of with_fix m))
           = Some (image_of (m(inode_bitmap := m inode_bitmap OR 1)))
     \<and> (m inode_bitmap OR 1) XOR m inode_bitmap = 1
     \<and> Report (Post_overall True) \<in> set (console (main (env_of with_fix m)))"
  using stale_run_outcome[OF assms] by blast

theorem stale_bitmap_scenario_witness:
  "lone_file s2_image False
   \<and> disk_after (main (env_of with_fix s2_image))
           = Some (image_of (s2_image(inode_bitmap := s2_image inode_bitmap OR 1)))"
  using stale_bitmap_scenario[OF lone_file_s2] lone_file_s2 by blast

lemma s2_image_bytes: "s2_image 128 = 0" "s2_image 4096 = 0"
  by (simp_all add: s2_image_def write32_other inode_at_def set_bit_in_def formatted_beyond)

text \<open>
  Byte 128 lies in the superblock and is not touched: the file written back for
  the S2 image has its byte 128 as before and differs at byte 4096.
\<close>

theorem stale_bitmap_byte_128_counterexample:
  "disk_after (main (env_of with_fix s2_image)) = Some (image_of (s2_image(4096 := 1)))
   \<and> (s2_image(4096 := 1)) 128 = s2_image 128
   \<and> (s2_image(4096 := 1)) 4096 \<noteq> s2_image 4096"
  using stale_run_outcome(3)[OF lone_file_s2] by (simp add: s2_image_bytes)

lemma sint_small:
  fixes p :: u32
  shows "p < 64 \<longleftrightarrow> 0 \<le> sint p \<and> sint p < 64"
proof
  assume "p < 64"
  then have u: "unat p < 64" by (simp add: word_less_nat_alt)
  have "sint (of_nat (unat p) :: u32) = int (unat p)"
    by (rule sint_of_nat_small) (use u in simp)
  then have "sint p = uint p" by simp
  moreover have "uint p < 64" using \<open>p < 64\<close> by (simp add: word_less_def)
  ultimately show "0 \<le> sint p \<and> sint p < 64" by simp
next
  assume a: "0 \<le> sint p \<and> sint p < 64"
  have "of_nat (nat (sint p)) = (of_int (sint p) :: u32)"
    using a by (metis of_int_of_nat_eq int_nat_eq)
  then have p: "p = of_nat (nat (sint p))" by simp
  have "nat (sint p) < 64" using a by linarith
  then have "unat (of_nat (nat (sint p)) :: u32) = nat (sint p)"
    by (intro unat_of_nat_small) simp
  then have "unat p = nat (sint p)" using p by simp
  then have "unat p < 64" using \<open>nat (sint p) < 64\<close> by simp
  then show "p < 64" by (simp add: word_less_nat_alt)
qed

lemma sint_small_nat:
  fixes p :: u32
  assumes "p < 64"
  shows "nat (sint p) = unat p"
proof -
  have u: "unat p < 64" using assms by (simp add: word_less_nat_alt)
  have "sint (of_nat (unat p) :: u32) = int (unat p)"
    by (rule sint_of_nat_small) (use u in simp)
  then show ?thesis by simp
qed

lemma get_block_sint:
  fixes p :: u32
  shows "get_block (sint p) = (if p < 64 then Some (unat p * BLOCK_SIZE) else None)"
  using sint_small[of p] sint_small_nat[of p]
  by (auto simp: get_block_def)

lemma bad_zeroed_refl: "bad_zeroed m m"
  by (simp add: bad_zeroed_def)

lemma bad_zeroed_trans:
  assumes "bad_zeroed m m'" "bad_zeroed m' m''"
  shows "bad_zeroed m m''"
  unfolding bad_zeroed_def
proof (intro allI impI)
  fix a :: nat assume a: "4 dvd a"
  have 1: "read32 m' a = read32 m a \<or> (bad (read32 m a) \<and> read32 m' a = 0)"
    using assms(1) a by (simp add: bad_zeroed_def)
  have 2: "read32 m'' a = read32 m' a \<or> (bad (read32 m' a) \<and> read32 m'' a = 0)"
    using assms(2) a by (simp add: bad_zeroed_def)
  show "read32 m'' a = read32 m a \<or> (bad (read32 m a) \<and> read32 m'' a = 0)"
    using 1 2 by (auto simp: bad_def)
qed

lemma bad_zeroed_write:
  assumes "4 dvd a" "bad (read32 m a)"
  shows "bad_zeroed m (write32 m a 0)"
  using assms by (simp add: bad_zeroed_def read32_write32)

lemma fold_rel:
  assumes "\<And>t. R t t" "\<And>t t' t''. R t t' \<Longrightarrow> R t' t'' \<Longrightarrow> R t t''"
    and "\<And>x t. R (g t) (g (f x t))"
  shows "R (g s) (g (fold f xs s))"
proof (induction xs arbitrary: s)
  case Nil
  show ?case by (simp add: assms(1))
next
  case (Cons x xs)
  show ?case using assms(2)[OF assms(3)[of s x] Cons[of "f x s"]] by simp
qed

lemma bz_bad_leaf:
  assumes "4 dvd base"
  shows "bad_zeroed (fs_image s) (fs_image (bad_leaf fix sl i base j s))"
proof -
  have "4 dvd base + 4 * j" using assms by simp
  then show ?thesis
    by (simp add: bad_leaf_def Let_def bad_zeroed_refl bad_zeroed_write bad_def)
qed

lemma bz_bad_node:
  assumes "4 dvd base" "\<And>b t. 4 dvd b \<Longrightarrow> bad_zeroed (fs_image t) (fs_image (descend b t))"
  shows "bad_zeroed (fs_image s) (fs_image (bad_node descend fix sl d i base j s))"
proof -
  have "4 dvd base + 4 * j" using assms by simp
  then show ?thesis
    by (simp add: bad_node_def Let_def bad_zeroed_refl bad_zeroed_write bad_def get_block_sint assms(2))
qed

lemma bz_bad_entries:
  "4 dvd base \<Longrightarrow> bad_zeroed (fs_image s) (fs_image (bad_entries d fix sl i base s))"
proof (induction d arbitrary: base s)
  case 0
  show ?case
    by (simp, rule fold_rel[where R = bad_zeroed and g = fs_image])
       (auto intro: bad_zeroed_refl bad_zeroed_trans bz_bad_leaf[OF 0])
next
  case (Suc d)
  show ?case
    by (simp, rule fold_rel[where R = bad_zeroed and g = fs_image])
       (auto intro: bad_zeroed_refl bad_zeroed_trans bz_bad_node[OF Suc(2)] Suc(1))
qed

lemma bz_bad_pointer:
  "bad_zeroed (fs_image s) (fs_image (bad_pointer sl fix i s))"
proof -
  let ?p = "pointer (fs_image s) i sl"
  have a: "4 dvd inode_at i + slot_offset sl" by (simp add: inode_at_aligned)
  show ?thesis
  proof (cases "?p \<ge> 64")
    case True
    then have "bad (read32 (fs_image s) (inode_at i + slot_offset sl))"
      by (simp add: bad_def pointer_def)
    then have "bad_zeroed (fs_image s) (write32 (fs_image s) (inode_at i + slot_offset sl) 0)"
      using a by (rule bad_zeroed_write[rotated])
    then show ?thesis
      using True by (cases "fix") (simp_all add: bad_pointer_def Let_def bad_zeroed_refl)
  next
    case False
    then have lt: "?p < 64" by (simp add: not_le)
    show ?thesis
    proof (cases "sl \<noteq> Direct \<and> ?p \<noteq> 0")
      case True
      have "4 dvd unat ?p * BLOCK_SIZE" by simp
      then show ?thesis
        using True False lt bz_bad_entries[of "unat ?p * BLOCK_SIZE" s "slot_depth sl" "fix" sl i]
        by (simp add: bad_pointer_def Let_def get_block_sint)
    next
      case no: False
      then show ?thesis
        using False by (auto simp add: bad_pointer_def Let_def bad_zeroed_refl)
    qed
  qed
qed

lemma bz_bad_inode: "bad_zeroed (fs_image s) (fs_image (bad_inode fix i s))"
proof (cases "is_inode_valid (fs_image s) i")
  case False
  then show ?thesis by (simp add: bad_inode_def bad_zeroed_refl)
next
  case True
  then show ?thesis
    by (simp add: bad_inode_def)
       (blast intro: bad_zeroed_trans bz_bad_pointer)
qed

lemma bz_bad_inodes: "bad_zeroed (fs_image s) (fs_image (fold (bad_inode fix) xs s))"
  by (rule fold_rel[where R = bad_zeroed and g = fs_image])
     (auto intro: bad_zeroed_refl bad_zeroed_trans bz_bad_inode)

lemma bz_check_bad_blocks: "bad_zeroed (fs_image s) (fs_image (snd (check_bad_blocks fix s)))"
  using bz_bad_inodes[of "print (Banner Bad_blocks) (s\<lparr>isValid := True\<rparr>)" "fix" "[0..<80]"]
  by (simp add: check_bad_blocks_def Let_def)

lemma clean_zero [simp]: "clean d m 0"
  by (cases d) (simp_all add: bad_def)

lemma clean_not_bad: "clean d m p \<Longrightarrow> \<not> bad p"
  by (cases d) simp_all

lemma entry_aligned: "4 dvd unat p * BLOCK_SIZE + 4 * j"
  by simp

lemma clean_bz:
  assumes "bad_zeroed m m'"
  shows "clean d m p \<Longrightarrow> clean d m' p"
proof (induction d arbitrary: p)
  case 0
  then show ?case by simp
next
  case (Suc d)
  show ?case
  proof (cases "p = 0")
    case True
    then show ?thesis by simp
  next
    case False
    have "clean d m' (entry m' p j)" if "j < 1024" for j
    proof -
      have c: "clean d m (entry m p j)" using Suc(2) False that by simp
      have "entry m' p j = entry m p j \<or> entry m' p j = 0"
        using assms entry_aligned[of p j] unfolding bad_zeroed_def entry_def by blast
      then show ?thesis using Suc(1)[OF c] by auto
    qed
    then show ?thesis using Suc(2) by simp
  qed
qed

lemma clean_at_bz:
  assumes "bad_zeroed m m'" "4 dvd a" "clean d m (read32 m a)"
  shows "clean d m' (read32 m' a)"
proof -
  have "read32 m' a = read32 m a \<or> read32 m' a = 0"
    using assms(1,2) unfolding bad_zeroed_def by blast
  then show ?thesis using clean_bz[OF assms(1,3)] by auto
qed

lemma kept_bz:
  assumes "bad_zeroed m m'" "4 dvd a" "\<not> bad (read32 m a)"
  shows "read32 m' a = read32 m a"
  using assms unfolding bad_zeroed_def by blast

lemma fold_upt_Suc: "fold f [0..<Suc n] s = f n (fold f [0..<n] s)"
  by simp

text \<open>Repair mode: after the loop over a container, each entry is clean.\<close>

lemma bad_leaf_clean:
  assumes "4 dvd base"
  shows "clean 0 (fs_image (bad_leaf True sl i base j s))
           (read32 (fs_image (bad_leaf True sl i base j s)) (base + 4 * j))"
  by (simp add: bad_leaf_def Let_def read32_write32_same bad_def not_le)

lemma bad_node_clean:
  assumes base: "4 dvd base"
    and desc: "\<And>b t k. 4 dvd b \<Longrightarrow> k < 1024 \<Longrightarrow>
        clean d (fs_image (descend b t)) (read32 (fs_image (descend b t)) (b + 4 * k))"
    and bz: "\<And>b t. 4 dvd b \<Longrightarrow> bad_zeroed (fs_image t) (fs_image (descend b t))"
  shows "clean (Suc d) (fs_image (bad_node descend True sl (Suc d) i base j s))
           (read32 (fs_image (bad_node descend True sl (Suc d) i base j s)) (base + 4 * j))"
proof -
  let ?v = "read32 (fs_image s) (base + 4 * j)"
  have al: "4 dvd base + 4 * j" using base by simp
  show ?thesis
  proof (cases "?v \<ge> 64")
    case True
    then show ?thesis by (simp add: bad_node_def Let_def read32_write32_same)
  next
    case False
    then have lt: "?v < 64" by (simp add: not_le)
    show ?thesis
    proof (cases "?v = 0")
      case True
      then show ?thesis using False by (simp add: bad_node_def Let_def)
    next
      case nz: False
      let ?b = "unat ?v * BLOCK_SIZE"
      let ?t = "descend ?b s"
      have e: "bad_node descend True sl (Suc d) i base j s = ?t"
        using False nz lt by (simp add: bad_node_def Let_def get_block_sint)
      have b4: "4 dvd ?b" by simp
      have keep: "read32 (fs_image ?t) (base + 4 * j) = ?v"
        using kept_bz[OF bz[OF b4, of s] al] False by (simp add: bad_def)
      have "clean d (fs_image ?t) (entry (fs_image ?t) ?v k)" if "k < 1024" for k
        using desc[OF b4 that, of s] by (simp add: entry_def)
      then have "clean (Suc d) (fs_image ?t) ?v"
        using False by (simp add: bad_def)
      then show ?thesis unfolding e keep .
    qed
  qed
qed

lemma scan_clean:
  assumes base: "4 dvd base"
    and step: "\<And>j t. clean d (fs_image (f j t)) (read32 (fs_image (f j t)) (base + 4 * j))"
    and bz: "\<And>j t. bad_zeroed (fs_image t) (fs_image (f j t))"
  shows "\<forall>j<n. clean d (fs_image (fold f [0..<n] s)) (read32 (fs_image (fold f [0..<n] s)) (base + 4 * j))"
proof (induction n)
  case 0
  show ?case by simp
next
  case (Suc n)
  let ?t = "fold f [0..<n] s"
  show ?case
  proof (intro allI impI)
    fix j assume "j < Suc n"
    then consider "j = n" | "j < n" by linarith
    then show "clean d (fs_image (fold f [0..<Suc n] s))
        (read32 (fs_image (fold f [0..<Suc n] s)) (base + 4 * j))"
    proof cases
      case 1
      then show ?thesis using step[of n ?t] by simp
    next
      case 2
      have al: "4 dvd base + 4 * j" using base by simp
      have "clean d (fs_image ?t) (read32 (fs_image ?t) (base + 4 * j))"
        using Suc 2 by simp
      then show ?thesis
        using clean_at_bz[OF bz[of ?t n] al] by simp
    qed
  qed
qed

lemma bad_entries_clean:
  assumes "4 dvd base" "k < 1024"
  shows "clean d (fs_image (bad_entries d True sl i base s))
     (read32 (fs_image (bad_entries d True sl i base s)) (base + 4 * k))"
  using assms
proof (induction d arbitrary: base s k)
  case 0
  show ?case
    using scan_clean[where f = "bad_leaf True sl i base" and d = 0 and n = 1024 and s = s,
        OF 0(1) bad_leaf_clean[OF 0(1)] bz_bad_leaf[OF 0(1)]] 0(2)
    by simp
next
  case (Suc d)
  have st: "clean (Suc d) (fs_image (bad_node (bad_entries d True sl i) True sl (Suc d) i base j t))
           (read32 (fs_image (bad_node (bad_entries d True sl i) True sl (Suc d) i base j t)) (base + 4 * j))"
    for j t
    by (rule bad_node_clean[OF Suc(2)]) (auto intro: Suc(1) bz_bad_entries)
  have bz: "bad_zeroed (fs_image t)
      (fs_image (bad_node (bad_entries d True sl i) True sl (Suc d) i base j t))" for j t
    by (rule bz_bad_node[OF Suc(2)]) (rule bz_bad_entries)
  show ?case
    using scan_clean[where f = "bad_node (bad_entries d True sl i) True sl (Suc d) i base"
        and d = "Suc d" and n = 1024 and s = s, OF Suc(2) st bz] Suc(3)
    by simp
qed

lemma all_slots: "(\<forall>sl. P sl) \<longleftrightarrow> P Direct \<and> P Single \<and> P Double \<and> P Triple"
  by (metis slot.exhaust)

lemma slot_levels_depth: "sl \<noteq> Direct \<Longrightarrow> slot_levels sl = Suc (slot_depth sl)"
  by (cases sl) simp_all

lemma scan_verdict:
  assumes fr: "\<And>j t. fs_image (f j t) = fs_image t"
    and st: "\<And>j t. isValid (f j t) \<longleftrightarrow> isValid t \<and> Q (fs_image t) j"
  shows "isValid (fold f [0..<n] s) \<longleftrightarrow> isValid s \<and> (\<forall>j<n. Q (fs_image s) j)"
proof (induction n)
  case 0
  show ?case by simp
next
  case (Suc n)
  have "fs_image (fold f [0..<n] s) = fs_image s"
    by (rule fold_preserves[where g = fs_image, OF fr])
  then show ?case
    using Suc by (auto simp add: st less_Suc_eq)
qed

lemma verdict_bad_leaf:
  "isValid (bad_leaf False sl i base j s) \<longleftrightarrow>
     isValid s \<and> clean 0 (fs_image s) (read32 (fs_image s) (base + 4 * j))"
  by (simp add: bad_leaf_def Let_def bad_def)

lemma verdict_bad_node:
  assumes desc: "\<And>b t. isValid (descend b t) \<longleftrightarrow>
      isValid t \<and> (\<forall>k<1024. clean d (fs_image t) (read32 (fs_image t) (b + 4 * k)))"
  shows "isValid (bad_node descend False sl (Suc d) i base j s) \<longleftrightarrow>
     isValid s \<and> clean (Suc d) (fs_image s) (read32 (fs_image s) (base + 4 * j))"
proof -
  let ?v = "read32 (fs_image s) (base + 4 * j)"
  show ?thesis
  proof (cases "?v \<ge> 64")
    case True
    then show ?thesis by (simp add: bad_node_def Let_def bad_def)
  next
    case False
    then have lt: "?v < 64" by (simp add: not_le)
    show ?thesis
    proof (cases "?v = 0")
      case True
      then show ?thesis using False by (simp add: bad_node_def Let_def)
    next
      case nz: False
      have e: "bad_node descend False sl (Suc d) i base j s = descend (unat ?v * BLOCK_SIZE) s"
        using False nz lt by (simp add: bad_node_def Let_def get_block_sint)
      show ?thesis
        unfolding e desc using False nz by (simp add: bad_def entry_def)
    qed
  qed
qed

lemma verdict_bad_entries:
  "isValid (bad_entries d False sl i base s) \<longleftrightarrow>
     isValid s \<and> (\<forall>k<1024. clean d (fs_image s) (read32 (fs_image s) (base + 4 * k)))"
proof (induction d arbitrary: base s)
  case 0
  show ?case
    using scan_verdict[where f = "bad_leaf False sl i base" and n = 1024 and s = s
        and Q = "\<lambda>m j. clean 0 m (read32 m (base + 4 * j))", OF frame_bad_leaf verdict_bad_leaf]
    by simp
next
  case (Suc d)
  have fr: "fs_image (bad_node (bad_entries d False sl i) False sl (Suc d) i base j t) = fs_image t"
    for j t by (rule frame_bad_node) (rule frame_bad_entries)
  have st: "isValid (bad_node (bad_entries d False sl i) False sl (Suc d) i base j t) \<longleftrightarrow>
     isValid t \<and> clean (Suc d) (fs_image t) (read32 (fs_image t) (base + 4 * j))" for j t
    by (rule verdict_bad_node) (rule Suc)
  show ?case
    using scan_verdict[where f = "bad_node (bad_entries d False sl i) False sl (Suc d) i base"
        and n = 1024 and s = s
        and Q = "\<lambda>m j. clean (Suc d) m (read32 m (base + 4 * j))", OF fr st]
    by simp
qed

lemma verdict_bad_pointer:
  "isValid (bad_pointer sl False i s) \<longleftrightarrow>
     isValid s \<and> clean (slot_levels sl) (fs_image s) (pointer (fs_image s) i sl)"
proof -
  let ?p = "pointer (fs_image s) i sl"
  show ?thesis
  proof (cases "?p \<ge> 64")
    case True
    then have "\<not> clean (slot_levels sl) (fs_image s) ?p"
      using clean_not_bad[of "slot_levels sl" "fs_image s" ?p] by (auto simp add: bad_def)
    then show ?thesis using True by (simp add: bad_pointer_def Let_def)
  next
    case False
    then have lt: "?p < 64" by (simp add: not_le)
    show ?thesis
    proof (cases "sl = Direct")
      case True
      then show ?thesis using False by (simp add: bad_pointer_def Let_def bad_def)
    next
      case nd: False
      show ?thesis
      proof (cases "?p = 0")
        case True
        then show ?thesis using False by (simp add: bad_pointer_def Let_def)
      next
        case nz: False
        have e: "bad_pointer sl False i s = bad_entries (slot_depth sl) False sl i (unat ?p * BLOCK_SIZE) s"
          using False nz nd lt by (simp add: bad_pointer_def Let_def get_block_sint)
        show ?thesis
          unfolding e verdict_bad_entries slot_levels_depth[OF nd]
          using False nz by (simp add: bad_def entry_def)
      qed
    qed
  qed
qed

lemma verdict_bad_inode:
  "isValid (bad_inode False i s) \<longleftrightarrow>
     isValid s \<and> (is_inode_valid (fs_image s) i \<longrightarrow> inode_clean (fs_image s) i)"
proof (cases "is_inode_valid (fs_image s) i")
  case False
  then show ?thesis by (simp add: bad_inode_def)
next
  case True
  then show ?thesis
    by (simp add: bad_inode_def verdict_bad_pointer frame_bad_pointer inode_clean_def all_slots)
qed

lemma verdict_check_bad_blocks:
  "fst (check_bad_blocks False s) \<longleftrightarrow>
     (\<forall>i<80. is_inode_valid (fs_image s) i \<longrightarrow> inode_clean (fs_image s) i)"
  using scan_verdict[where f = "bad_inode False" and n = 80
      and s = "print (Banner Bad_blocks) (s\<lparr>isValid := True\<rparr>)"
      and Q = "\<lambda>m i. is_inode_valid m i \<longrightarrow> inode_clean m i", OF frame_bad_inode verdict_bad_inode]
  by (simp add: check_bad_blocks_def Let_def)

lemma pointer_clean_bz:
  assumes "bad_zeroed m m'" "clean d m (pointer m i sl)"
  shows "clean d m' (pointer m' i sl)"
  using clean_at_bz[OF assms(1), of "inode_at i + slot_offset sl" d] assms(2)
  by (simp add: pointer_def inode_at_aligned)

lemma pointer_kept_bz:
  assumes "bad_zeroed m m'" "\<not> bad (pointer m i sl)"
  shows "pointer m' i sl = pointer m i sl"
  using kept_bz[OF assms(1), of "inode_at i + slot_offset sl"] assms(2)
  by (simp add: pointer_def inode_at_aligned)

lemma inode_clean_bz:
  assumes "bad_zeroed m m'" "inode_clean m i"
  shows "inode_clean m' i"
  using assms unfolding inode_clean_def by (blast intro: pointer_clean_bz)

lemma bad_pointer_clean:
  "clean (slot_levels sl) (fs_image (bad_pointer sl True i s))
     (pointer (fs_image (bad_pointer sl True i s)) i sl)"
proof -
  let ?p = "pointer (fs_image s) i sl"
  show ?thesis
  proof (cases "?p \<ge> 64")
    case True
    then show ?thesis
      by (simp add: bad_pointer_def Let_def) (simp add: pointer_def read32_write32_same)
  next
    case False
    then have lt: "?p < 64" by (simp add: not_le)
    show ?thesis
    proof (cases "sl = Direct")
      case True
      then show ?thesis using False by (simp add: bad_pointer_def Let_def bad_def)
    next
      case nd: False
      show ?thesis
      proof (cases "?p = 0")
        case True
        then show ?thesis using False by (simp add: bad_pointer_def Let_def)
      next
        case nz: False
        let ?b = "unat ?p * BLOCK_SIZE"
        let ?t = "bad_entries (slot_depth sl) True sl i ?b s"
        have e: "bad_pointer sl True i s = ?t"
          using False nz nd lt by (simp add: bad_pointer_def Let_def get_block_sint)
        have b4: "4 dvd ?b" by simp
        have keep: "pointer (fs_image ?t) i sl = ?p"
          by (rule pointer_kept_bz[OF bz_bad_entries[OF b4]]) (use False in \<open>simp add: bad_def\<close>)
        have "clean (slot_depth sl) (fs_image ?t) (entry (fs_image ?t) ?p k)" if "k < 1024" for k
          using bad_entries_clean[OF b4 that, of "slot_depth sl" sl i s] by (simp add: entry_def)
        then have "clean (Suc (slot_depth sl)) (fs_image ?t) ?p"
          using False by (simp add: bad_def)
        then show ?thesis unfolding e keep slot_levels_depth[OF nd] .
      qed
    qed
  qed
qed

lemma bad_inode_clean:
  assumes "is_inode_valid (fs_image s) i"
  shows "inode_clean (fs_image (bad_inode True i s)) i"
proof -
  let ?s1 = "bad_pointer Direct True i s"
  let ?s2 = "bad_pointer Single True i ?s1"
  let ?s3 = "bad_pointer Double True i ?s2"
  let ?s4 = "bad_pointer Triple True i ?s3"
  have e: "bad_inode True i s = ?s4" using assms by (simp add: bad_inode_def)
  have b12: "bad_zeroed (fs_image ?s1) (fs_image ?s2)" by (rule bz_bad_pointer)
  have b23: "bad_zeroed (fs_image ?s2) (fs_image ?s3)" by (rule bz_bad_pointer)
  have b34: "bad_zeroed (fs_image ?s3) (fs_image ?s4)" by (rule bz_bad_pointer)
  have c1: "clean (slot_levels Direct) (fs_image ?s4) (pointer (fs_image ?s4) i Direct)"
    by (intro pointer_clean_bz[OF b34] pointer_clean_bz[OF b23] pointer_clean_bz[OF b12]
        bad_pointer_clean)
  have c2: "clean (slot_levels Single) (fs_image ?s4) (pointer (fs_image ?s4) i Single)"
    by (intro pointer_clean_bz[OF b34] pointer_clean_bz[OF b23] bad_pointer_clean)
  have c3: "clean (slot_levels Double) (fs_image ?s4) (pointer (fs_image ?s4) i Double)"
    by (intro pointer_clean_bz[OF b34] bad_pointer_clean)
  have c4: "clean (slot_levels Triple) (fs_image ?s4) (pointer (fs_image ?s4) i Triple)"
    by (rule bad_pointer_clean)
  show ?thesis
    unfolding e inode_clean_def all_slots using c1 c2 c3 c4 by blast
qed

lemma bad_visit_Suc: "bad_visit fix s (Suc i) = bad_inode fix i (bad_visit fix s i)"
  by (simp add: bad_visit_def)

lemma bad_visit_final: "snd (check_bad_blocks fix s) = bad_visit fix s INODE_COUNT"
  by (simp add: check_bad_blocks_def bad_visit_def Let_def)

lemma bz_visit:
  "i \<le> j \<Longrightarrow> bad_zeroed (fs_image (bad_visit fix s i)) (fs_image (bad_visit fix s j))"
proof (induction j)
  case 0
  then show ?case by (simp add: bad_zeroed_refl)
next
  case (Suc j)
  show ?case
  proof (cases "i = Suc j")
    case True
    then show ?thesis by (simp add: bad_zeroed_refl)
  next
    case False
    then have "i \<le> j" using Suc(2) by simp
    then have "bad_zeroed (fs_image (bad_visit fix s i)) (fs_image (bad_visit fix s j))"
      by (rule Suc(1))
    then show ?thesis
      unfolding bad_visit_Suc by (rule bad_zeroed_trans) (rule bz_bad_inode)
  qed
qed

lemma visited_clean:
  assumes "i < INODE_COUNT" "is_inode_valid (fs_image (bad_visit True s i)) i"
  shows "inode_clean (fs_image (snd (check_bad_blocks True s))) i"
proof -
  have "inode_clean (fs_image (bad_visit True s (Suc i))) i"
    unfolding bad_visit_Suc using assms(2) by (rule bad_inode_clean)
  moreover have "bad_zeroed (fs_image (bad_visit True s (Suc i))) (fs_image (bad_visit True s 80))"
    by (rule bz_visit) (use assms(1) in simp)
  ultimately show ?thesis
    unfolding bad_visit_final by (rule inode_clean_bz[rotated])
qed

lemma visited_entry_zeroed:
  assumes i: "i < INODE_COUNT" and live: "is_inode_valid (fs_image (bad_visit True s i)) i"
    and sl: "sl \<noteq> Direct"
    and p: "pointer (fs_image (bad_visit True s i)) i sl = p" "p \<noteq> 0" "p < TOTAL_BLOCKS"
    and j: "j < entries_per_block"
    and b: "bad (entry (fs_image (bad_visit True s i)) p j)"
  shows "entry (fs_image (snd (check_bad_blocks True s))) p j = 0
     \<and> pointer (fs_image (snd (check_bad_blocks True s))) i sl = p"
proof -
  let ?m = "fs_image (bad_visit True s i)"
  let ?m' = "fs_image (snd (check_bad_blocks True s))"
  have bz: "bad_zeroed ?m ?m'"
    unfolding bad_visit_final by (rule bz_visit) (use i in simp)
  have nb: "\<not> bad p" using p(3) by (simp add: bad_def not_le)
  have keep: "pointer ?m' i sl = p"
    using pointer_kept_bz[OF bz, of i sl] nb p(1) by simp
  have "clean (slot_levels sl) ?m' (pointer ?m' i sl)"
    using visited_clean[OF i live] by (simp add: inode_clean_def)
  then have "clean (Suc (slot_depth sl)) ?m' p"
    unfolding keep slot_levels_depth[OF sl] .
  then have "clean (slot_depth sl) ?m' (entry ?m' p j)"
    using p(2) j by simp
  then have n: "\<not> bad (entry ?m' p j)" by (rule clean_not_bad)
  have "entry ?m' p j = entry ?m p j \<or> entry ?m' p j = 0"
    using bz entry_aligned[of p j] unfolding bad_zeroed_def entry_def by blast
  then show ?thesis using n b keep by auto
qed

lemma bit_read32_low: "k < 8 \<Longrightarrow> bit (read32 m a) k = bit (m a) k"
  by (simp add: read32_def bit_simps)

lemma is_bit_set_low: "k < 8 \<Longrightarrow> is_bit_set m b k = bit (read32 m b) k"
  by (simp add: is_bit_set_iff bit_read32_low)

lemma bad_file_inode:
  "is_inode_valid bad_file 0" "pointer bad_file 0 Direct = 100"
  using lone_file_s1
  by (simp_all add: bad_file_def is_inode_valid_write_pointer[where sl = Direct, simplified]
      pointer_write_pointer[where sl' = Direct, simplified] lone_file_def)

lemma inode_write32_below:
  assumes "a + 4 \<le> 12288"
  shows "links_count (write32 m a v) i = links_count m i"
    and "dtime (write32 m a v) i = dtime m i"
    and "pointer (write32 m a v) i sl = pointer m i sl"
  using assms inode_at_ge[of i]
  by (simp_all add: links_count_def dtime_def pointer_def read32_write32_other)

lemma meta_file_inode:
  "is_inode_valid meta_file i \<longleftrightarrow> i = 6"
  "pointer meta_file 6 Single = 1"
  by (simp_all add: meta_file_def is_inode_valid_def links_count_write_links dtime_write_links
        links_count_write_pointer[where sl = Single, simplified]
        dtime_write_pointer[where sl = Single, simplified]
        pointer_write_pointer[where sl' = Single, simplified]
        inode_write32_below inode_formatted)

lemma meta_file_bitmap: "read32 meta_file inode_bitmap = 64"
  by (simp add: meta_file_def read32_write32 inode_at_aligned inode_at_def)

lemma low_file_inode:
  "is_inode_valid low_file i \<longleftrightarrow> i = 0"
  "pointer low_file 0 sl = (if sl = Direct then 3 else 0)"
proof -
  show "is_inode_valid low_file i \<longleftrightarrow> i = 0"
    using lone_file_s1
    by (simp add: low_file_def is_inode_valid_write_pointer[where sl = Direct, simplified]
        lone_file_def is_inode_valid_def inode_set_bit inode_formatted s1_image_def
        links_count_write_links dtime_write_links
        links_count_write_pointer[where sl = Direct, simplified]
        dtime_write_pointer[where sl = Direct, simplified])
  show "pointer low_file 0 sl = (if sl = Direct then 3 else 0)"
    using lone_file_s1
    by (simp add: low_file_def pointer_write_pointer[where sl' = Direct, simplified] lone_file_def)
qed

lemma bad_visit_skip:
  assumes "\<forall>k<i. \<not> is_inode_valid (fs_image s) k"
  shows "fs_image (bad_visit fix s i) = fs_image s"
proof -
  let ?s0 = "print (Banner Bad_blocks) (s\<lparr>isValid := True\<rparr>)"
  have "fold (bad_inode fix) [0..<i] ?s0 = ?s0"
    by (rule fold_noop) (use assms in \<open>simp add: bad_inode_def\<close>)
  then show ?thesis by (simp add: bad_visit_def)
qed



text \<open>
  C10.  Whatever block below 64 a live inode names in an indirect field, the
  blocks 1 to 7 included, the pass reads it as a table of 1024 entries: in
  repair mode every entry of it that held a bad number is zero at the end,
  while the field itself keeps its value.
\<close>

theorem metadata_scanned_as_container:
  assumes "i < INODE_COUNT" "is_inode_valid (fs_image (bad_visit True s i)) i"
    and "sl \<noteq> Direct"
    and "pointer (fs_image (bad_visit True s i)) i sl = p" "p \<noteq> 0" "p < TOTAL_BLOCKS"
    and "j < entries_per_block"
    and "bad (entry (fs_image (bad_visit True s i)) p j)"
  shows "entry (fs_image (snd (check_bad_blocks True s))) p j = 0
     \<and> pointer (fs_image (snd (check_bad_blocks True s))) i sl = p"
  using assms by (rule visited_entry_zeroed)

theorem metadata_scanned_as_container_witness:
  "(6::nat) < INODE_COUNT \<and> is_inode_valid meta_file 6 \<and> Single \<noteq> Direct
   \<and> pointer meta_file 6 Single = 1 \<and> (1::u32) \<noteq> 0 \<and> (1::u32) < TOTAL_BLOCKS
   \<and> (0::nat) < entries_per_block
   \<and> read32 meta_file inode_bitmap = 64
   \<and> is_bit_set meta_file inode_bitmap 6
   \<and> read32 (fs_image (snd (check_bad_blocks True (loaded (image_of meta_file))))) inode_bitmap = 0
   \<and> \<not> is_bit_set (fs_image (snd (check_bad_blocks True (loaded (image_of meta_file))))) inode_bitmap 6"
proof -
  let ?s = "loaded (image_of meta_file)"
  let ?m' = "fs_image (snd (check_bad_blocks True ?s))"
  have i: "fs_image ?s = meta_file" by (simp add: loaded_def image_of_def)
  have v: "fs_image (bad_visit True ?s 6) = meta_file"
    using bad_visit_skip[of 6 ?s True] unfolding i by (simp add: meta_file_inode)
  have e: "entry m 1 0 = read32 m inode_bitmap" for m by (simp add: entry_def)
  have b: "bad (entry (fs_image (bad_visit True ?s 6)) 1 0)"
    unfolding v e by (simp add: meta_file_bitmap bad_def)
  have l: "is_inode_valid (fs_image (bad_visit True ?s 6)) 6"
    unfolding v by (simp add: meta_file_inode)
  have p: "pointer (fs_image (bad_visit True ?s 6)) 6 Single = 1"
    unfolding v by (simp add: meta_file_inode)
  have "entry ?m' 1 0 = 0"
    using metadata_scanned_as_container[of 6 ?s Single 1 0, OF _ l _ p _ _ _ b] by simp
  then have z: "read32 ?m' inode_bitmap = 0" unfolding e .
  have "is_bit_set meta_file inode_bitmap 6" "\<not> is_bit_set ?m' inode_bitmap 6"
    by (simp_all add: is_bit_set_low z meta_file_bitmap bit_simps)
  then show ?thesis using z by (simp add: meta_file_inode meta_file_bitmap)
qed

lemma ib_check_image:
  "fs_image (ib_check fix i s) = fs_image s
   \<or> fs_image (ib_check fix i s) = set_bit_in (fs_image s) inode_bitmap i
   \<or> fs_image (ib_check fix i s) = clear_bit (fs_image s) inode_bitmap i"
  by (simp add: ib_check_def Let_def)

lemma live_ib_check:
  assumes "i < INODE_COUNT"
  shows "is_inode_valid (fs_image (ib_check fix i s)) k = is_inode_valid (fs_image s) k"
proof -
  have "inode_bitmap + i div 8 < 12288" using assms by simp
  then show ?thesis
    using ib_check_image[of "fix" i s]
    by (auto simp add: inode_set_bit(4) inode_clear_bit(4))
qed

lemma live_ib_checks:
  "n \<le> INODE_COUNT \<Longrightarrow>
   is_inode_valid (fs_image (fold (ib_check fix) [0..<n] s)) k = is_inode_valid (fs_image s) k"
  by (induction n) (simp_all add: live_ib_check)

lemma bits_ib_checks:
  "n \<le> INODE_COUNT \<Longrightarrow>
   is_bit_set (fs_image (fold (ib_check True) [0..<n] s)) inode_bitmap j =
     (if j < n then is_inode_valid (fs_image s) j else is_bit_set (fs_image s) inode_bitmap j)"
proof (induction n)
  case 0
  show ?case by simp
next
  case (Suc n)
  then show ?case by (auto simp add: bit_ib_check live_ib_checks)
qed

lemma ib_check_elsewhere:
  assumes "a \<noteq> inode_bitmap + i div 8"
  shows "fs_image (ib_check fix i s) a = fs_image s a"
  using ib_check_image[of "fix" i s] assms
  by (auto simp add: set_bit_in_def clear_bit_def Let_def)

lemma ib_checks_elsewhere:
  assumes "a < inode_bitmap \<or> inode_bitmap + 10 \<le> a"
  shows "n \<le> INODE_COUNT \<Longrightarrow> fs_image (fold (ib_check fix) [0..<n] s) a = fs_image s a"
proof (induction n)
  case 0
  show ?case by simp
next
  case (Suc n)
  then have "n div 8 < 10" by simp
  then have "a \<noteq> inode_bitmap + n div 8" using assms by auto
  then show ?case using Suc by (simp add: ib_check_elsewhere)
qed

lemma inode_bitmap_reconciled:
  assumes "i < INODE_COUNT"
  shows "is_bit_set (fs_image (snd (validate_inode_bitmap True s))) inode_bitmap i
     = is_inode_valid (fs_image (snd (validate_inode_bitmap True s))) i"
    and "is_inode_valid (fs_image (snd (validate_inode_bitmap fix s))) k = is_inode_valid (fs_image s) k"
    and "a < inode_bitmap \<or> inode_bitmap + 10 \<le> a \<Longrightarrow>
       fs_image (snd (validate_inode_bitmap fix s)) a = fs_image s a"
  using assms
  by (simp_all add: validate_inode_bitmap_def Let_def bits_ib_checks live_ib_checks ib_checks_elsewhere)

lemma verdict_ib_check:
  "isValid (ib_check False i s) \<longleftrightarrow>
     isValid s \<and> (is_bit_set (fs_image s) inode_bitmap i = is_inode_valid (fs_image s) i)"
  by (auto simp add: ib_check_def Let_def)

lemma verdict_validate_inode_bitmap:
  "fst (validate_inode_bitmap False s) \<longleftrightarrow>
     (\<forall>i<INODE_COUNT. is_bit_set (fs_image s) inode_bitmap i = is_inode_valid (fs_image s) i)"
  using scan_verdict[where f = "ib_check False" and n = 80
      and s = "print (Banner Inode_bitmap) (s\<lparr>isValid := True\<rparr>)"
      and Q = "\<lambda>m i. is_bit_set m inode_bitmap i = is_inode_valid m i",
      OF frame_ib_check verdict_ib_check]
  by (simp add: validate_inode_bitmap_def Let_def)

lemma calmI:
  assumes "\<And>s. isValid (t s) \<Longrightarrow> isValid s \<and> fs_image (t s) = fs_image s"
  shows "calm t"
  using assms by (simp add: calm_def)

lemma calmD:
  assumes "calm t" "isValid (t s)"
  shows "isValid s" "fs_image (t s) = fs_image s"
  using assms by (simp_all add: calm_def)

lemma calm_comp:
  assumes "calm g" "calm h"
  shows "calm (g \<circ> h)"
proof (rule calmI)
  fix s assume v: "isValid ((g \<circ> h) s)"
  then have "isValid (g (h s))" by simp
  then have 1: "isValid (h s)" "fs_image (g (h s)) = fs_image (h s)"
    using calmD[OF assms(1)] by blast+
  then have 2: "isValid s" "fs_image (h s) = fs_image s"
    using calmD[OF assms(2)] by blast+
  show "isValid s \<and> fs_image ((g \<circ> h) s) = fs_image s"
    using 1 2 by simp
qed

lemma calm_fold:
  assumes "\<And>x. calm (f x)"
  shows "calm (fold f xs)"
proof (induction xs)
  case Nil
  show ?case by (simp add: calm_def)
next
  case (Cons x xs)
  have "calm (fold f xs \<circ> f x)" by (rule calm_comp) (rule Cons, rule assms)
  then show ?case by (simp add: calm_def)
qed

lemma isValid_check_dup:
  "isValid (snd (check_data_block_for_duplicates v i fx s)) = isValid s"
  by (simp add: check_data_block_for_duplicates_def Let_def)

lemma calm_dup_leaf: "calm (dup_leaf True i base j)"
  by (rule calmI)
     (auto simp add: dup_leaf_def Let_def case_prod_beta isValid_check_dup frame_check_dup
        split: if_splits)

lemma calm_dup_node:
  assumes "\<And>b. calm (descend b)"
  shows "calm (dup_node descend True i base j)"
proof (rule calmI)
  fix s
  assume v: "isValid (dup_node descend True i base j s)"
  let ?v = "read32 (fs_image s) (base + 4 * j)"
  let ?c = "check_data_block_for_duplicates ?v i True s"
  let ?s3 = "if \<not> fst ?c then poke32 (base + 4 * j) 0 (invalid (snd ?c)) else snd ?c"
  show "isValid s \<and> fs_image (dup_node descend True i base j s) = fs_image s"
  proof (cases "?v = 0")
    case True
    then show ?thesis using v by (simp add: dup_node_def)
  next
    case nz: False
    have e: "dup_node descend True i base j s =
        (case get_block (sint ?v) of None \<Rightarrow> ?s3 | Some blk \<Rightarrow> descend blk ?s3)"
      using nz by (simp add: dup_node_def Let_def case_prod_beta split: option.splits)
    have 3: "isValid ?s3 \<and> fs_image (dup_node descend True i base j s) = fs_image ?s3"
    proof (cases "get_block (sint ?v)")
      case None
      then show ?thesis using v unfolding e by simp
    next
      case (Some b)
      then show ?thesis using v calmD[OF assms[of b], of ?s3] unfolding e by simp
    qed
    then have ok: "fst ?c" by (auto split: if_splits)
    then show ?thesis
      using 3 by (simp add: isValid_check_dup frame_check_dup)
  qed
qed

lemma calm_dup_entries: "calm (dup_entries d True i base)"
proof (induction d arbitrary: base)
  case 0
  have "calm (fold (dup_leaf True i base) [0..<1024])"
    by (rule calm_fold) (rule calm_dup_leaf)
  then show ?case by (simp add: calm_def)
next
  case (Suc d)
  have "calm (fold (dup_node (dup_entries d True i) True i base) [0..<1024])"
    by (rule calm_fold) (rule calm_dup_node, rule Suc)
  then show ?case by (simp add: calm_def)
qed

lemma calm_dup_pointer: "calm (dup_pointer sl True i)"
proof (rule calmI)
  fix s
  assume v: "isValid (dup_pointer sl True i s)"
  let ?p = "pointer (fs_image s) i sl"
  let ?s1 = "s\<lparr>block_ref_count := (block_ref_count s)(unat ?p := True),
                inode_refs := (inode_refs s)(unat ?p := int i)\<rparr>"
  show "isValid s \<and> fs_image (dup_pointer sl True i s) = fs_image s"
  proof (cases "?p \<noteq> 0 \<and> ?p \<ge> 8 \<and> ?p < 64 \<and> \<not> block_ref_count s (unat ?p) \<and> sl \<noteq> Direct")
    case False
    then show ?thesis
      using v by (auto simp add: dup_pointer_def Let_def split: if_splits)
  next
    case True
    show ?thesis
    proof (cases "get_block (sint ?p)")
      case None
      then show ?thesis
        using v True by (auto simp add: dup_pointer_def Let_def)
    next
      case (Some b)
      have e: "dup_pointer sl True i s = dup_entries (slot_depth sl) True i b ?s1"
        using True Some by (simp add: dup_pointer_def Let_def)
      show ?thesis
        using calmD[OF calm_dup_entries, of "slot_depth sl" i b ?s1] v unfolding e by simp
    qed
  qed
qed

lemma calm_dup_inode: "calm (dup_inode True i)"
proof (rule calmI)
  fix s
  assume v: "isValid (dup_inode True i s)"
  show "isValid s \<and> fs_image (dup_inode True i s) = fs_image s"
  proof (cases "is_inode_valid (fs_image s) i")
    case False
    then show ?thesis using v by (simp add: dup_inode_def)
  next
    case True
    let ?t = "dup_pointer Triple True i \<circ> (dup_pointer Double True i
                \<circ> (dup_pointer Single True i \<circ> dup_pointer Direct True i))"
    have t: "calm ?t"
      by (intro calm_comp calm_dup_pointer)
    have e: "dup_inode True i s = ?t s" using True by (simp add: dup_inode_def)
    show ?thesis using calmD[OF t, of s] v unfolding e by simp
  qed
qed

lemma calm_bad_leaf: "calm (bad_leaf True sl i base j)"
  by (rule calmI) (auto simp add: bad_leaf_def Let_def split: if_splits)

lemma calm_bad_node:
  assumes "\<And>b. calm (descend b)"
  shows "calm (bad_node descend True sl d i base j)"
proof (rule calmI)
  fix s
  assume v: "isValid (bad_node descend True sl d i base j s)"
  let ?v = "read32 (fs_image s) (base + 4 * j)"
  show "isValid s \<and> fs_image (bad_node descend True sl d i base j s) = fs_image s"
  proof (cases "?v < 64 \<and> ?v \<noteq> 0")
    case False
    then show ?thesis
      using v by (auto simp add: bad_node_def Let_def split: if_splits)
  next
    case True
    show ?thesis
    proof (cases "get_block (sint ?v)")
      case None
      then show ?thesis using v True by (auto simp add: bad_node_def Let_def)
    next
      case (Some b)
      have e: "bad_node descend True sl d i base j s = descend b s"
        using True Some by (auto simp add: bad_node_def Let_def)
      show ?thesis using calmD[OF assms[of b], of s] v unfolding e by simp
    qed
  qed
qed

lemma calm_bad_entries: "calm (bad_entries d True sl i base)"
proof (induction d arbitrary: base)
  case 0
  have "calm (fold (bad_leaf True sl i base) [0..<1024])"
    by (rule calm_fold) (rule calm_bad_leaf)
  then show ?case by (simp add: calm_def)
next
  case (Suc d)
  have "calm (fold (bad_node (bad_entries d True sl i) True sl (Suc d) i base) [0..<1024])"
    by (rule calm_fold) (rule calm_bad_node, rule Suc)
  then show ?case by (simp add: calm_def)
qed

lemma calm_bad_pointer: "calm (bad_pointer sl True i)"
proof (rule calmI)
  fix s
  assume v: "isValid (bad_pointer sl True i s)"
  let ?p = "pointer (fs_image s) i sl"
  show "isValid s \<and> fs_image (bad_pointer sl True i s) = fs_image s"
  proof (cases "?p < 64 \<and> sl \<noteq> Direct \<and> ?p \<noteq> 0")
    case False
    then show ?thesis
      using v by (auto simp add: bad_pointer_def Let_def split: if_splits)
  next
    case True
    show ?thesis
    proof (cases "get_block (sint ?p)")
      case None
      then show ?thesis using v True by (auto simp add: bad_pointer_def Let_def)
    next
      case (Some b)
      have e: "bad_pointer sl True i s = bad_entries (slot_depth sl) True sl i b s"
        using True Some by (auto simp add: bad_pointer_def Let_def)
      show ?thesis
        using calmD[OF calm_bad_entries, of "slot_depth sl" sl i b s] v unfolding e by simp
    qed
  qed
qed

lemma calm_bad_inode: "calm (bad_inode True i)"
proof (rule calmI)
  fix s
  assume v: "isValid (bad_inode True i s)"
  show "isValid s \<and> fs_image (bad_inode True i s) = fs_image s"
  proof (cases "is_inode_valid (fs_image s) i")
    case False
    then show ?thesis using v by (simp add: bad_inode_def)
  next
    case True
    let ?t = "bad_pointer Triple True i \<circ> (bad_pointer Double True i
                \<circ> (bad_pointer Single True i \<circ> bad_pointer Direct True i))"
    have t: "calm ?t"
      by (intro calm_comp calm_bad_pointer)
    have e: "bad_inode True i s = ?t s" using True by (simp add: bad_inode_def)
    show ?thesis using calmD[OF t, of s] v unfolding e by simp
  qed
qed

lemma calm_check_duplicate_blocks:
  assumes "fst (check_duplicate_blocks True ok s)"
  shows "fs_image (snd (check_duplicate_blocks True ok s)) = fs_image s"
proof -
  have ok: ok using assms by (auto simp: check_duplicate_blocks_def Let_def split: if_splits)
  let ?s1 = "print (Banner Duplicate_blocks) (s\<lparr>isValid := True\<rparr>)
       \<lparr>block_ref_count := (\<lambda>_. False), inode_refs := (\<lambda>_. 0)\<rparr>"
  have e: "check_duplicate_blocks True ok s =
      (isValid (fold (dup_inode True) [0..<80] ?s1), fold (dup_inode True) [0..<80] ?s1)"
    using ok by (simp add: check_duplicate_blocks_def Let_def)
  show ?thesis
    using calmD(2)[OF calm_fold[of "dup_inode True", OF calm_dup_inode], of "[0..<80]" ?s1] assms
    unfolding e by simp
qed

lemma calm_check_bad_blocks:
  assumes "fst (check_bad_blocks True s)"
  shows "fs_image (snd (check_bad_blocks True s)) = fs_image s"
  using assms calmD(2)[OF calm_fold[of "bad_inode True", OF calm_bad_inode],
      of "[0..<80]" "print (Banner Bad_blocks) (s\<lparr>isValid := True\<rparr>)"]
  by (simp add: check_bad_blocks_def Let_def)

lemma audit_check_inode_bitmap:
  "inode_bitmap_verdict (fst (audit False a b s)) \<longleftrightarrow> bitmap_agrees (fs_image s)"
proof -
  obtain v1 s1 where 1: "validate_superblock False s = (v1, s1)" by fastforce
  obtain v2 s2 where 2: "validate_data_bitmap False a s1 = (v2, s2)" by fastforce
  obtain v3 s3 where 3: "validate_inode_bitmap False s2 = (v3, s3)" by fastforce
  obtain v4 s4 where 4: "check_duplicate_blocks False b s3 = (v4, s4)" by fastforce
  obtain v5 s5 where 5: "check_bad_blocks False s4 = (v5, s5)" by fastforce
  have "fs_image s1 = fs_image s" using frame_validate_superblock[of s] 1 by simp
  moreover have "fs_image s2 = fs_image s1" using frame_validate_data_bitmap[of a s1] 2 by simp
  ultimately have i: "fs_image s2 = fs_image s" by simp
  have "v3 \<longleftrightarrow> bitmap_agrees (fs_image s2)"
    using verdict_validate_inode_bitmap[of s2] 3 by (simp add: bitmap_agrees_def)
  then show ?thesis
    unfolding i by (simp add: audit_def 1 2 3 4 5)
qed

lemma audit_repair_inode_bitmap:
  assumes "all_valid (fst (audit True a b s))"
  shows "bitmap_agrees (fs_image (snd (audit True a b s)))"
proof -
  obtain v1 s1 where 1: "validate_superblock True s = (v1, s1)" by fastforce
  obtain v2 s2 where 2: "validate_data_bitmap True a s1 = (v2, s2)" by fastforce
  obtain v3 s3 where 3: "validate_inode_bitmap True s2 = (v3, s3)" by fastforce
  obtain v4 s4 where 4: "check_duplicate_blocks True b s3 = (v4, s4)" by fastforce
  obtain v5 s5 where 5: "check_bad_blocks True s4 = (v5, s5)" by fastforce
  have v: v4 v5 using assms by (simp_all add: audit_def 1 2 3 4 5)
  have "bitmap_agrees (fs_image s3)"
    using inode_bitmap_reconciled(1)[of _ s2] 3 by (simp add: bitmap_agrees_def)
  moreover have "fs_image s4 = fs_image s3"
    using calm_check_duplicate_blocks[of b s3] 4 v by simp
  moreover have "fs_image s5 = fs_image s4"
    using calm_check_bad_blocks[of s4] 5 v by simp
  ultimately show ?thesis by (simp add: audit_def 1 2 3 4 5)
qed

lemma all_valid_inode_bitmap: "all_valid v \<Longrightarrow> inode_bitmap_verdict v"
  by (cases v) simp

lemma last_round_inode_bitmap:
  assumes "loads e f"
  shows "buffer (main e) = Some (fs_image (snd (last_round e f)))"
    and "bitmap_agrees (fs_image (snd (last_round e f)))
       \<longleftrightarrow> inode_bitmap_verdict (fst (last_round e f))"
proof -
  show "buffer (main e) = Some (fs_image (snd (last_round e f)))"
  proof (cases "repairs e f")
    case True
    then show ?thesis using main_repair(2)[OF assms True] by (simp add: last_round_def)
  next
    case False
    then show ?thesis using main_no_repair[OF assms False] by (simp add: last_round_def)
  qed
  show "bitmap_agrees (fs_image (snd (last_round e f)))
       \<longleftrightarrow> inode_bitmap_verdict (fst (last_round e f))"
  proof (cases "repairs e f")
    case True
    have "last_round e f = second_round e f" using True by (simp add: last_round_def)
    then show ?thesis
      by (simp add: second_round_def audit_check_inode_bitmap frame_audit)
  next
    case nr: False
    then have l: "last_round e f = first_round e f" by (simp add: last_round_def)
    show ?thesis
    proof (cases "fix_requested e")
      case True
      then have a: "all_valid (fst (first_round e f))" using nr by (simp add: repairs_def)
      have "first_round e f = audit True (pass_alloc_ok e 0) (pass_alloc_ok e 1)
          (prints (greeting e) (loaded f))"
        using True by (simp add: first_round_def)
      then have "bitmap_agrees (fs_image (snd (first_round e f)))"
        using audit_repair_inode_bitmap a by simp
      then show ?thesis using all_valid_inode_bitmap[OF a] unfolding l by simp
    next
      case False
      then show ?thesis
        unfolding l by (simp add: first_round_def audit_check_inode_bitmap frame_audit)
    qed
  qed
qed

lemma fold_upt_split:
  assumes "i < n"
  shows "fold f [0..<n] s = fold f [Suc i..<n] (f i (fold f [0..<i] s))"
proof -
  obtain k where n: "n = i + Suc k" using assms less_iff_Suc_add by auto
  have "[0..<i + Suc k] = [0..<i] @ [i..<i + Suc k]"
    by (rule upt_add_eq_append) simp
  also have "[i..<i + Suc k] = i # [Suc i..<i + Suc k]"
    by (rule upt_conv_Cons) simp
  finally show ?thesis unfolding n by simp
qed

lemma db_pass_agree:
  assumes "\<forall>k<DATA_BLOCKS_COUNT. is_bit_set (fs_image s) data_bitmap k = top_level_ref (fs_image s) k"
  shows "fst (validate_data_bitmap fix True s)"
    and "fs_image (snd (validate_data_bitmap fix True s)) = fs_image s"
proof -
  let ?s1 = "print Db_checking (print (Banner Data_bitmap) (s\<lparr>isValid := True\<rparr>)\<lparr>block_used := (\<lambda>_. False)\<rparr>)"
  let ?s3 = "print Db_validating (fold mark_inode [0..<80] ?s1)"
  have i3: "fs_image ?s3 = fs_image s"
    by (simp add: fold_preserves[where g = fs_image, OF frame_mark_inode])
  have v3: "isValid ?s3"
    by (simp add: fold_preserves[where g = isValid, OF isValid_mark_inode])
  have u3: "block_used ?s3 k = top_level_ref (fs_image s) k" if "k < 56" for k
    using that by (simp add: block_used_marking top_level_ref_def)
  have "fold (db_check fix) [0..<56] ?s3 = ?s3"
  proof (rule fold_noop)
    fix k assume "k \<in> set [0..<56]"
    then have k: "k < 56" by simp
    have "is_bit_set (fs_image ?s3) data_bitmap k = top_level_ref (fs_image s) k"
      using assms k unfolding i3 by simp
    then show "db_check fix k ?s3 = ?s3"
      using u3[OF k] by (intro db_check_noop) simp
  qed
  then have e: "validate_data_bitmap fix True s = (isValid ?s3, ?s3)"
    by (simp add: validate_data_bitmap_def Let_def)
  show "fst (validate_data_bitmap fix True s)" unfolding e using v3 by simp
  show "fs_image (snd (validate_data_bitmap fix True s)) = fs_image s" unfolding e using i3 by simp
qed

lemma ib_pass_agree:
  assumes "bitmap_agrees (fs_image s)"
  shows "fst (validate_inode_bitmap fix s)"
    and "fs_image (snd (validate_inode_bitmap fix s)) = fs_image s"
proof -
  have c: "fst (validate_inode_bitmap False s)"
    using assms by (simp add: verdict_validate_inode_bitmap bitmap_agrees_def)
  have e: "validate_inode_bitmap fix s = validate_inode_bitmap False s"
    using quiet_validate_inode_bitmap(1)[OF c] by (cases "fix") simp_all
  show "fst (validate_inode_bitmap fix s)" unfolding e by (rule c)
  show "fs_image (snd (validate_inode_bitmap fix s)) = fs_image s"
    unfolding e by (rule frame_validate_inode_bitmap)
qed

lemma dup_pass_idle:
  assumes "\<forall>i<INODE_COUNT. is_inode_valid (fs_image s) i \<longrightarrow>
     (\<forall>sl. \<not> (DATA_BLOCK_START_NUM \<le> pointer (fs_image s) i sl \<and> pointer (fs_image s) i sl < TOTAL_BLOCKS))"
  shows "fst (check_duplicate_blocks fix True s)"
    and "fs_image (snd (check_duplicate_blocks fix True s)) = fs_image s"
proof -
  let ?s0 = "print (Banner Duplicate_blocks) (s\<lparr>isValid := True\<rparr>)
       \<lparr>block_ref_count := (\<lambda>_. False), inode_refs := (\<lambda>_. 0)\<rparr>"
  have "fold (dup_inode fix) [0..<80] ?s0 = ?s0"
  proof (rule fold_noop)
    fix i assume "i \<in> set [0..<80]"
    then have i: "i < 80" by simp
    show "dup_inode fix i ?s0 = ?s0"
    proof (cases "is_inode_valid (fs_image s) i")
      case False
      then show ?thesis by (simp add: dup_inode_def)
    next
      case True
      then have h: "(8 \<le> pointer (fs_image s) i sl \<and> pointer (fs_image s) i sl < 64) = False" for sl
        using assms i by blast
      have "dup_pointer sl fix i ?s0 = ?s0" for sl
        by (simp add: dup_pointer_def Let_def h)
      then show ?thesis by (simp add: dup_inode_def)
    qed
  qed
  then have e: "check_duplicate_blocks fix True s = (True, ?s0)"
    by (simp add: check_duplicate_blocks_def Let_def)
  show "fst (check_duplicate_blocks fix True s)" unfolding e by simp
  show "fs_image (snd (check_duplicate_blocks fix True s)) = fs_image s" unfolding e by simp
qed

lemma bad_leaf_skip:
  "read32 (fs_image s) (base + 4 * j) < TOTAL_BLOCKS \<Longrightarrow> bad_leaf fix sl i base j s = s"
  by (simp add: bad_leaf_def Let_def not_le)

lemma bad_pointer_absent:
  "pointer (fs_image s) i sl = 0 \<Longrightarrow> bad_pointer sl fix i s = s"
  by (simp add: bad_pointer_def Let_def)

lemma of_nat_data_block:
  assumes "k < DATA_BLOCKS_COUNT"
  shows "(of_nat (k + 8) :: u32) \<ge> 8" "(of_nat (k + 8) :: u32) < 64"
proof -
  have u: "unat (of_nat (k + 8) :: u32) = k + 8"
    by (rule unat_of_nat_small) (use assms in simp)
  show "(of_nat (k + 8) :: u32) \<ge> 8" "(of_nat (k + 8) :: u32) < 64"
    using assms by (simp_all only: word_le_nat_alt word_less_nat_alt u) simp_all
qed

lemma table_file_sb: "sb_get table_file f = sb_expected f"
  by (simp add: table_file_def sb_get_write32_beyond sb_get_set_bit_beyond sb_get_formatted inode_at_def)

lemma table_file_inode:
  "is_inode_valid table_file i \<longleftrightarrow> i = 5"
  "pointer table_file 5 sl = (if sl = Single then 3 else 0)"
  "links_count table_file 5 = 100"
  by (simp_all add: table_file_def is_inode_valid_def links_count_write_links dtime_write_links
        links_count_write_pointer[where sl = Single, simplified]
        dtime_write_pointer[where sl = Single, simplified]
        pointer_write_pointer[where sl' = Single, simplified]
        pointer_write_links inode_set_bit inode_formatted)

lemma table_file_bits:
  "i < INODE_COUNT \<Longrightarrow> is_bit_set table_file inode_bitmap i \<longleftrightarrow> i = 5"
  "k < DATA_BLOCKS_COUNT \<Longrightarrow> \<not> is_bit_set table_file data_bitmap k"
proof -
  assume "i < INODE_COUNT"
  then have "i div 8 < 10" by auto
  then show "is_bit_set table_file inode_bitmap i \<longleftrightarrow> i = 5"
    by (auto simp add: table_file_def bit_write32_above is_bit_set_set inode_at_def
        is_bit_set_formatted)
next
  assume "k < DATA_BLOCKS_COUNT"
  then have "k div 8 < 7" by auto
  then show "\<not> is_bit_set table_file data_bitmap k"
    by (simp add: table_file_def bit_write32_above inode_at_def
        is_bit_set_set_other is_bit_set_formatted)
qed

lemma table_file_agrees: "bitmap_agrees table_file"
  by (simp add: bitmap_agrees_def table_file_bits table_file_inode)

lemma table_file_unreferenced:
  assumes "k < DATA_BLOCKS_COUNT"
  shows "\<not> top_level_ref table_file k"
proof
  assume "top_level_ref table_file k"
  then obtain sl where "pointer table_file 5 sl = of_nat (k + 8)"
    by (auto simp add: top_level_ref_def table_file_inode(1))
  then have e: "(of_nat (k + 8) :: u32) = pointer table_file 5 sl" by (rule sym)
  have "pointer table_file 5 sl = 3 \<or> pointer table_file 5 sl = 0"
    by (simp add: table_file_inode(2))
  moreover have "8 \<le> pointer table_file 5 sl"
    using of_nat_data_block(1)[OF assms] unfolding e .
  ultimately show False by auto
qed

lemma table_file_block_3:
  "read32 table_file (12288 + 4 * j) = (if j = 273 then 100 else if j = 276 then 3 else 0)"
proof -
  have a: "inode_at 5 + 32 = 12288 + 4 * 273" "inode_at 5 + 44 = 12288 + 4 * 276"
    by (simp_all add: inode_at_def)
  have "read32 (set_bit_in formatted inode_bitmap 5) (12288 + 4 * j) = 0"
    by (simp add: read32_set_bit_other read32_formatted)
  then show ?thesis
    unfolding table_file_def a by (simp add: read32_write32)
qed

lemma table_file_repaired_block_3:
  "read32 table_file_repaired (12288 + 4 * j) = (if j = 276 then 3 else 0)"
proof -
  have a: "inode_at 5 + 32 = 12288 + 4 * 273" by (simp add: inode_at_def)
  show ?thesis
    unfolding table_file_repaired_def a
    by (simp add: read32_write32 table_file_block_3 table_file_block_3[of 276, simplified])
qed

lemma table_file_repaired_inode:
  "\<not> is_inode_valid table_file_repaired i"
  "is_bit_set table_file_repaired inode_bitmap 5"
  "links_count table_file_repaired 5 = 0"
proof -
  show "\<not> is_inode_valid table_file_repaired i"
    using table_file_inode(1)[of i]
    by (cases "i = 5")
       (auto simp add: table_file_repaired_def is_inode_valid_def links_count_write_links
          dtime_write_links)
  have "is_bit_set table_file inode_bitmap 5" by (simp add: table_file_bits)
  then show "is_bit_set table_file_repaired inode_bitmap 5"
    by (simp add: table_file_repaired_def bit_write32_above inode_at_def)
  show "links_count table_file_repaired 5 = 0"
    by (simp add: table_file_repaired_def links_count_write_links)
qed

lemma bad_pointer_descend:
  assumes "sl \<noteq> Direct" "pointer (fs_image s) i sl = p" "p \<noteq> 0" "p < TOTAL_BLOCKS"
  shows "bad_pointer sl fix i s = bad_entries (slot_depth sl) fix sl i (unat p * BLOCK_SIZE) s"
proof -
  have "\<not> 64 \<le> p" using assms(4) by (simp add: not_le)
  then show ?thesis
    using assms by (simp add: bad_pointer_def Let_def get_block_sint)
qed

lemma bad_pass_table_file:
  assumes "fs_image s = table_file"
  shows "\<not> fst (check_bad_blocks True s)"
    and "fs_image (snd (check_bad_blocks True s)) = table_file_repaired"
proof -
  let ?s0 = "print (Banner Bad_blocks) (s\<lparr>isValid := True\<rparr>)"
  let ?s1 = "invalid (poke32 (12288 + 4 * 273) 0 (print (Fixing (Bad_fix_entry Single 0 273 5))
      (print (Error (Bad_entry Single 0 5 100)) ?s0)))"
  have a: "inode_at 5 + 32 = 12288 + 4 * 273" by (simp add: inode_at_def)
  have i0: "fs_image ?s0 = table_file" using assms by simp
  have i1: "fs_image ?s1 = table_file_repaired"
    using assms by (simp add: table_file_repaired_def a poke32_def)
  have before: "fold (bad_leaf True Single 5 12288) [0..<273] ?s0 = ?s0"
  proof (rule fold_noop)
    fix j assume "j \<in> set [0..<273]"
    then have "j \<noteq> 273" "j \<noteq> 276" by simp_all
    then have "read32 (fs_image ?s0) (12288 + 4 * j) < 64"
      unfolding i0 by (simp add: table_file_block_3)
    then show "bad_leaf True Single 5 12288 j ?s0 = ?s0" by (rule bad_leaf_skip)
  qed
  have at: "bad_leaf True Single 5 12288 273 ?s0 = ?s1"
    using assms by (simp add: bad_leaf_def Let_def table_file_block_3[of 273, simplified])
  have after: "fold (bad_leaf True Single 5 12288) [Suc 273..<1024] ?s1 = ?s1"
  proof (rule fold_noop)
    fix j assume "j \<in> set [Suc 273..<1024]"
    have "read32 (fs_image ?s1) (12288 + 4 * j) < 64"
      unfolding i1 by (simp add: table_file_repaired_block_3)
    then show "bad_leaf True Single 5 12288 j ?s1 = ?s1" by (rule bad_leaf_skip)
  qed
  have scan: "bad_entries 0 True Single 5 12288 ?s0 = ?s1"
    using fold_upt_split[of 273 1024 "bad_leaf True Single 5 12288" ?s0]
    by (simp only: bad_entries.simps before at after)
  have p0: "pointer (fs_image ?s0) 5 sl = (if sl = Single then 3 else 0)" for sl
    unfolding i0 by (rule table_file_inode(2))
  have p1: "pointer (fs_image ?s1) 5 sl = (if sl = Single then 3 else 0)" for sl
    unfolding i1 table_file_repaired_def by (simp add: pointer_write_links table_file_inode(2))
  have d: "bad_pointer Direct True 5 ?s0 = ?s0"
    by (rule bad_pointer_absent) (simp only: p0, simp)
  have "bad_pointer Single True 5 ?s0 = bad_entries (slot_depth Single) True Single 5 (unat (3::u32) * BLOCK_SIZE) ?s0"
    by (rule bad_pointer_descend) (simp_all only: p0, simp_all)
  then have sg: "bad_pointer Single True 5 ?s0 = ?s1"
    using scan by simp
  have db: "bad_pointer Double True 5 ?s1 = ?s1"
    by (rule bad_pointer_absent) (simp only: p1, simp)
  have tr: "bad_pointer Triple True 5 ?s1 = ?s1"
    by (rule bad_pointer_absent) (simp only: p1, simp)
  have live: "is_inode_valid (fs_image ?s0) 5" unfolding i0 by (simp add: table_file_inode)
  have five: "bad_inode True 5 ?s0 = ?s1"
    using live by (simp only: bad_inode_def d sg db tr) simp
  have first: "fold (bad_inode True) [0..<5] ?s0 = ?s0"
  proof (rule fold_noop)
    fix i assume "i \<in> set [0..<5]"
    then have "i \<noteq> 5" by simp
    then show "bad_inode True i ?s0 = ?s0"
      by (intro bad_inode_dead) (simp only: i0 table_file_inode(1), simp)
  qed
  have rest: "fold (bad_inode True) [Suc 5..<80] ?s1 = ?s1"
  proof (rule fold_noop)
    fix i assume "i \<in> set [Suc 5..<80]"
    show "bad_inode True i ?s1 = ?s1"
      by (intro bad_inode_dead) (simp only: i1 table_file_repaired_inode(1), simp)
  qed
  have "fold (bad_inode True) [0..<80] ?s0 = ?s1"
    using fold_upt_split[of 5 80 "bad_inode True" ?s0]
    by (simp only: first five rest)
  then have e: "check_bad_blocks True s = (isValid ?s1, ?s1)"
    by (simp only: check_bad_blocks_def Let_def)
  show "\<not> fst (check_bad_blocks True s)" unfolding e by (simp add: invalid_def)
  show "fs_image (snd (check_bad_blocks True s)) = table_file_repaired"
    unfolding e using i1 by simp
qed

lemma audit_table_file:
  assumes "fs_image s = table_file"
  shows "\<not> all_valid (fst (audit True True True s))"
    and "fs_image (snd (audit True True True s)) = table_file_repaired"
proof -
  obtain v1 s1 where 1: "validate_superblock True s = (v1, s1)" by fastforce
  obtain v2 s2 where 2: "validate_data_bitmap True True s1 = (v2, s2)" by fastforce
  obtain v3 s3 where 3: "validate_inode_bitmap True s2 = (v3, s3)" by fastforce
  obtain v4 s4 where 4: "check_duplicate_blocks True True s3 = (v4, s4)" by fastforce
  obtain v5 s5 where 5: "check_bad_blocks True s4 = (v5, s5)" by fastforce
  have sb: "\<forall>f. sb_get (fs_image s) f = sb_expected f" using assms by (simp add: table_file_sb)
  have a1: "fs_image s1 = table_file" using sb_pass_ok(2)[OF sb, of True] 1 assms by simp
  have "\<forall>k<DATA_BLOCKS_COUNT. is_bit_set (fs_image s1) data_bitmap k = top_level_ref (fs_image s1) k"
    unfolding a1 by (simp add: table_file_bits table_file_unreferenced)
  then have a2: "fs_image s2 = table_file" using db_pass_agree(2)[of s1 True] 2 a1 by simp
  have "bitmap_agrees (fs_image s2)" unfolding a2 by (rule table_file_agrees)
  then have a3: "fs_image s3 = table_file" using ib_pass_agree(2)[of s2 True] 3 a2 by simp
  have "\<forall>i<INODE_COUNT. is_inode_valid (fs_image s3) i \<longrightarrow>
     (\<forall>sl. \<not> (DATA_BLOCK_START_NUM \<le> pointer (fs_image s3) i sl \<and> pointer (fs_image s3) i sl < TOTAL_BLOCKS))"
    unfolding a3 by (simp add: table_file_inode)
  then have a4: "fs_image s4 = table_file" using dup_pass_idle(2)[of s3 True] 4 a3 by simp
  have a5: "\<not> v5" "fs_image s5 = table_file_repaired"
    using bad_pass_table_file[OF a4] 5 by simp_all
  show "\<not> all_valid (fst (audit True True True s))"
    using a5 by (simp add: audit_def 1 2 3 4 5)
  show "fs_image (snd (audit True True True s)) = table_file_repaired"
    using a5 by (simp add: audit_def 1 2 3 4 5)
qed

lemma table_file_run:
  "repairs (env_of with_fix table_file) (image_of table_file)"
  "fs_image (snd (second_round (env_of with_fix table_file) (image_of table_file))) = table_file_repaired"
proof -
  let ?e = "env_of with_fix table_file" and ?f = "image_of table_file"
  let ?s0 = "prints (greeting ?e) (loaded ?f)"
  have i0: "fs_image ?s0 = table_file" by (simp add: loaded_def image_of_def)
  have fr: "first_round ?e ?f = audit True True True ?s0"
    by (simp add: first_round_def)
  show "repairs ?e ?f"
    using audit_table_file(1)[OF i0] by (simp add: repairs_def fr)
  show "fs_image (snd (second_round ?e ?f)) = table_file_repaired"
    using audit_table_file(2)[OF i0] by (simp add: second_round_def frame_audit fr)
qed




lemma inode_write32_above:
  assumes "32768 \<le> a" "i < INODE_COUNT"
  shows "links_count (write32 m a v) i = links_count m i"
    and "dtime (write32 m a v) i = dtime m i"
    and "pointer (write32 m a v) i sl = pointer m i sl"
    and "is_inode_valid (write32 m a v) i = is_inode_valid m i"
proof -
  have "inode_at i + 56 \<le> 32768" using assms(2) by (simp add: inode_at_def)
  then have b: "inode_at i + 28 + 4 \<le> a" "inode_at i + 32 + 4 \<le> a"
    "inode_at i + slot_offset sl + 4 \<le> a"
    using assms(1) by (cases sl; simp)+
  show l: "links_count (write32 m a v) i = links_count m i"
    and d: "dtime (write32 m a v) i = dtime m i"
    and "pointer (write32 m a v) i sl = pointer m i sl"
    using b by (simp_all add: links_count_def dtime_def pointer_def read32_write32_other)
  show "is_inode_valid (write32 m a v) i = is_inode_valid m i"
    by (simp add: is_inode_valid_def l d)
qed

lemma twice_file_inode:
  "i < INODE_COUNT \<Longrightarrow> is_inode_valid twice_file i \<longleftrightarrow> i = 0"
  "pointer twice_file 0 sl = (if sl = Double then 8 else 0)"
  by (simp_all add: twice_file_def inode_write32_above is_inode_valid_def
        links_count_write_links dtime_write_links
        links_count_write_pointer[where sl = Double, simplified]
        dtime_write_pointer[where sl = Double, simplified]
        pointer_write_pointer[where sl' = Double, simplified]
        pointer_write_links inode_formatted)

lemma twice_file_block_8:
  assumes "j < entries_per_block"
  shows "read32 twice_file (32768 + 4 * j) = (if j = 0 \<or> j = 1 then 9 else 0)"
proof -
  have "read32 (write32 (write32 formatted (inode_at 0 + 32) 1) (inode_at 0 + 48) 8) (32768 + 4 * j) = 0"
    by (simp add: read32_write32_other read32_formatted inode_at_def)
  then show ?thesis
    using assms by (simp add: twice_file_def read32_write32)
qed

lemma twice_file_block_9:
  "read32 twice_file (36864 + 4 * k) = (if k = 0 then 10 else 0)"
proof -
  have "read32 (write32 (write32 formatted (inode_at 0 + 32) 1) (inode_at 0 + 48) 8) (36864 + 4 * k) = 0"
    by (simp add: read32_write32_other read32_formatted inode_at_def)
  then show ?thesis
    by (simp add: twice_file_def read32_write32)
qed

lemma fold_first_only:
  assumes "0 < n" "\<And>j. 0 < j \<Longrightarrow> j < n \<Longrightarrow> f j (f 0 s) = f 0 s"
  shows "fold f [0..<n] s = f 0 s"
proof -
  have "[0..<n] = 0 # [Suc 0..<n]" using assms(1) by (rule upt_conv_Cons)
  moreover have "fold f [Suc 0..<n] (f 0 s) = f 0 s"
    by (rule fold_noop) (use assms(2) in simp)
  ultimately show ?thesis by simp
qed

lemma fold_first_two:
  assumes "1 < n" "\<And>j. 1 < j \<Longrightarrow> j < n \<Longrightarrow> f j (f 1 (f 0 s)) = f 1 (f 0 s)"
  shows "fold f [0..<n] s = f 1 (f 0 s)"
proof -
  have "[0..<n] = 0 # [Suc 0..<n]" using assms(1) by (intro upt_conv_Cons) simp
  moreover have "[Suc 0..<n] = Suc 0 # [Suc (Suc 0)..<n]"
    using assms(1) by (intro upt_conv_Cons) simp
  moreover have "fold f [Suc (Suc 0)..<n] (f 1 (f 0 s)) = f 1 (f 0 s)"
    by (rule fold_noop) (use assms(2) in simp)
  ultimately show ?thesis by simp
qed

lemma dup_leaf_skip:
  "read32 (fs_image s) (base + 4 * j) = 0 \<Longrightarrow> dup_leaf fix i base j s = s"
  by (simp add: dup_leaf_def)

lemma dup_node_skip:
  "read32 (fs_image s) (base + 4 * j) = 0 \<Longrightarrow> dup_node descend fix i base j s = s"
  by (simp add: dup_node_def)

lemma dup_pointer_absent:
  "pointer (fs_image s) i sl = 0 \<Longrightarrow> dup_pointer sl fix i s = s"
  by (simp add: dup_pointer_def)

lemma twice_file_words:
  "read32 twice_file 32768 = 9" "read32 twice_file 32772 = 9" "read32 twice_file 36864 = 10"
  using twice_file_block_8[of 0] twice_file_block_8[of 1] twice_file_block_9[of 0] by simp_all

lemma twice_file_poked:
  "j < entries_per_block \<Longrightarrow>
     read32 (write32 twice_file 32772 0) (32768 + 4 * j) = (if j = 0 then 9 else 0)"
  "read32 (write32 twice_file 32772 0) (36864 + 4 * k) = (if k = 0 then 10 else 0)"
  by (simp_all add: read32_write32 twice_file_block_8 twice_file_block_9 twice_file_words)

lemma twice_file_poked_words:
  "read32 (write32 twice_file 32772 0) 32768 = 9" "read32 (write32 twice_file 32772 0) 36864 = 10"
  using twice_file_poked(1)[of 0] twice_file_poked(2)[of 0] by simp_all

lemma twice_file_repaired_blocks:
  "j < entries_per_block \<Longrightarrow>
     read32 twice_file_repaired (32768 + 4 * j) = (if j = 0 then 9 else 0)"
  "read32 twice_file_repaired (36864 + 4 * k) = 0"
  by (simp_all add: twice_file_repaired_def read32_write32 twice_file_poked twice_file_poked_words
      twice_file_words twice_file_block_8 twice_file_block_9)

lemma twice_file_repaired_inode:
  "i < INODE_COUNT \<Longrightarrow> is_inode_valid twice_file_repaired i \<longleftrightarrow> i = 0"
  "pointer twice_file_repaired 0 sl = (if sl = Double then 8 else 0)"
  by (simp_all add: twice_file_repaired_def inode_write32_above twice_file_inode)

lemma fun_upd_const: "(\<lambda>_. c)(x := c) = (\<lambda>_. c)"
  by (rule ext) simp

lemma dup_pass_twice_file:
  assumes "fs_image s = twice_file"
  shows "check_duplicate_blocks True True s =
     (False,
      s\<lparr>fs_image := twice_file_repaired,
        block_ref_count := (\<lambda>_. False)(8 := True, 9 := True, 10 := True),
        inode_refs := (\<lambda>_. 0),
        isValid := False,
        printed := printed s @ [Banner Duplicate_blocks,
          Error (Dup_error Direct 9 0 0), Dup_note, Error (Dup_error Direct 10 0 0), Dup_note]\<rparr>)"
proof -
  let ?s0 = "print (Banner Duplicate_blocks) (s\<lparr>isValid := True\<rparr>)
       \<lparr>block_ref_count := (\<lambda>_. False), inode_refs := (\<lambda>_. 0)\<rparr>"
  let ?b = "print (Banner Duplicate_blocks) (s\<lparr>isValid := True\<rparr>)"
  let ?s1 = "?b\<lparr>block_ref_count := (\<lambda>_. False)(8 := True), inode_refs := (\<lambda>_. 0)\<rparr>"
  let ?s2 = "?b\<lparr>block_ref_count := (\<lambda>_. False)(8 := True, 9 := True),
       inode_refs := (\<lambda>_. 0)\<rparr>"
  let ?s3 = "?b\<lparr>block_ref_count := (\<lambda>_. False)(8 := True, 9 := True, 10 := True),
       inode_refs := (\<lambda>_. 0)\<rparr>"
  let ?s4 = "poke32 32772 0 (invalid (print Dup_note (print (Error (Dup_error Direct 9 0 0)) ?s3)))"
  let ?s5 = "poke32 36864 0 (invalid (print Dup_note (print (Error (Dup_error Direct 10 0 0)) ?s4)))"
  let ?leaf = "dup_leaf True 0 36864"
  let ?node = "dup_node (dup_entries 0 True 0) True 0 32768"
  have i4: "fs_image ?s4 = write32 twice_file 32772 0"
    using assms by (simp add: poke32_def)
  have i5: "fs_image ?s5 = twice_file_repaired"
    using assms by (simp add: poke32_def twice_file_repaired_def)

  have l0: "?leaf 0 ?s2 = ?s3"
    using assms
    by (simp add: dup_leaf_def check_data_block_for_duplicates_def Let_def twice_file_words
        fun_upd_const)
  have "fold ?leaf [0..<1024] ?s2 = ?leaf 0 ?s2"
  proof (rule fold_first_only)
    fix k :: nat assume "0 < k"
    then have "read32 (fs_image ?s3) (36864 + 4 * k) = 0"
      using assms by (simp add: twice_file_block_9)
    then show "?leaf k (?leaf 0 ?s2) = ?leaf 0 ?s2"
      unfolding l0 by (rule dup_leaf_skip)
  qed simp
  then have walk1: "dup_entries 0 True 0 36864 ?s2 = ?s3"
    unfolding l0 by simp

  have m0: "?leaf 0 ?s4 = ?s5"
    using assms
    by (simp add: dup_leaf_def check_data_block_for_duplicates_def Let_def poke32_def
        twice_file_poked_words fun_upd_const)
  have "fold ?leaf [0..<1024] ?s4 = ?leaf 0 ?s4"
  proof (rule fold_first_only)
    fix k :: nat
    have "read32 (fs_image ?s5) (36864 + 4 * k) = 0"
      unfolding i5 by (rule twice_file_repaired_blocks(2))
    then show "?leaf k (?leaf 0 ?s4) = ?leaf 0 ?s4"
      unfolding m0 by (rule dup_leaf_skip)
  qed simp
  then have walk2: "dup_entries 0 True 0 36864 ?s4 = ?s5"
    unfolding m0 by simp

  have g: "get_block 9 = Some 36864" by (simp add: get_block_def)
  have "?node 0 ?s1 = dup_entries 0 True 0 36864 ?s2"
    using assms
    by (simp add: dup_node_def check_data_block_for_duplicates_def Let_def twice_file_words g
        fun_upd_const del: dup_entries.simps)
  then have n0: "?node 0 ?s1 = ?s3" unfolding walk1 .
  have "?node 1 ?s3 = dup_entries 0 True 0 36864 ?s4"
    using assms
    by (simp add: dup_node_def check_data_block_for_duplicates_def Let_def twice_file_words g
        fun_upd_const del: dup_entries.simps)
  then have n1: "?node 1 (?node 0 ?s1) = ?s5" unfolding n0 walk2 .
  have "fold ?node [0..<1024] ?s1 = ?node 1 (?node 0 ?s1)"
  proof (rule fold_first_two)
    fix j :: nat assume "1 < j" "j < 1024"
    then have "read32 (fs_image ?s5) (32768 + 4 * j) = 0"
      unfolding i5 by (simp add: twice_file_repaired_blocks(1))
    then show "?node j (?node 1 (?node 0 ?s1)) = ?node 1 (?node 0 ?s1)"
      unfolding n1 by (rule dup_node_skip)
  qed simp
  then have walk: "dup_entries (Suc 0) True 0 32768 ?s1 = ?s5"
    unfolding n1 by simp

  have g8: "get_block 8 = Some 32768" by (simp add: get_block_def)
  have d: "dup_pointer Direct True 0 ?s0 = ?s0" "dup_pointer Single True 0 ?s0 = ?s0"
    using assms by (simp_all add: dup_pointer_absent twice_file_inode)
  have "dup_pointer Double True 0 ?s0 = dup_entries (Suc 0) True 0 32768 ?s1"
    using assms
    by (simp add: dup_pointer_def Let_def twice_file_inode g8 fun_upd_const
        del: dup_entries.simps)
  then have db: "dup_pointer Double True 0 ?s0 = ?s5" unfolding walk .
  have tr: "dup_pointer Triple True 0 ?s5 = ?s5"
    by (rule dup_pointer_absent) (simp only: i5 twice_file_repaired_inode(2), simp)
  have "is_inode_valid (fs_image ?s0) 0" using assms by (simp add: twice_file_inode)
  then have zero: "dup_inode True 0 ?s0 = ?s5"
    by (simp only: dup_inode_def d db tr if_False not_True_eq_False simp_thms)
  have "fold (dup_inode True) [0..<80] ?s0 = dup_inode True 0 ?s0"
  proof (rule fold_first_only)
    fix i :: nat assume "0 < i" "i < 80"
    then have "\<not> is_inode_valid (fs_image ?s5) i"
      unfolding i5 by (simp add: twice_file_repaired_inode(1))
    then show "dup_inode True i (dup_inode True 0 ?s0) = dup_inode True 0 ?s0"
      unfolding zero by (rule dup_inode_dead)
  qed simp
  then have "fold (dup_inode True) [0..<80] ?s0 = ?s5" unfolding zero .
  then have "check_duplicate_blocks True True s = (isValid ?s5, ?s5)"
    by (simp add: check_duplicate_blocks_def Let_def)
  then show ?thesis
    using assms by (simp add: poke32_def invalid_def print_def twice_file_repaired_def)
qed

text \<open>
  C1.  The pass on an image in which a block is named twice inside a
  double-indirect container.  Inode 0 is the only file; its double-indirect
  field names block 8, whose entries 0 and 1 both name block 9, whose entry 0
  names block 10.  At entry 1 the pass reports block 9 as a duplicate and
  zeroes the entry, and then walks block 9 a second time all the same: it
  reports block 10, which is named once, as a duplicate of itself and zeroes
  the entry of block 9 that named it.
\<close>

theorem duplicate_container_walked_again:
  "is_inode_valid twice_file 0 \<and> pointer twice_file 0 Double = 8
   \<and> entry twice_file 8 0 = 9 \<and> entry twice_file 8 1 = 9 \<and> entry twice_file 9 0 = 10
   \<and> \<not> fst (check_duplicate_blocks True True (loaded (image_of twice_file)))
   \<and> findings (snd (check_duplicate_blocks True True (loaded (image_of twice_file))))
       = [Error (Dup_error Direct 9 0 0), Error (Dup_error Direct 10 0 0)]
   \<and> fs_image (snd (check_duplicate_blocks True True (loaded (image_of twice_file))))
       = twice_file_repaired
   \<and> entry twice_file_repaired 8 0 = 9 \<and> entry twice_file_repaired 8 1 = 0
   \<and> entry twice_file_repaired 9 0 = 0"
proof -
  have i: "fs_image (loaded (image_of twice_file)) = twice_file"
    by (simp add: loaded_def image_of_def)
  have e: "entry m 8 0 = read32 m 32768" "entry m 8 1 = read32 m 32772"
    "entry m 9 0 = read32 m 36864" for m
    by (simp_all add: entry_def)
  have r: "read32 twice_file_repaired 32768 = 9" "read32 twice_file_repaired 32772 = 0"
    "read32 twice_file_repaired 36864 = 0"
    using twice_file_repaired_blocks(1)[of 0] twice_file_repaired_blocks(1)[of 1]
      twice_file_repaired_blocks(2)[of 0] by simp_all
  show ?thesis
    unfolding dup_pass_twice_file[OF i] e
    by (simp add: twice_file_inode twice_file_words r findings_def is_finding_def loaded_def)
qed

end
